theory Spec2Isabelle
  imports Complex_Main "HOL-Library.Sublist"
begin

section \<open>Strings and the runtime's string primitives\<close>

text \<open>
  A JavaScript string is a sequence of code units and \<open>length\<close> counts code units. The
  embedding uses \<open>string\<close>: one \<open>char\<close> is one code unit in the range U+0000 to U+00FF
  (Basic Latin and Latin-1 Supplement, which covers the Portuguese transcripts the
  program works on). Within that range the runtime's case mapping, canonical
  decomposition, white space class and word class are tabulated in full below.
\<close>

definition code :: "char \<Rightarrow> int" where
  "code c = of_char c"

text \<open>\<open>\s\<close> and \<open>trim()\<close>: TAB, LF, VT, FF, CR, SPACE and NO-BREAK SPACE.\<close>

definition isWhiteSpace :: "char \<Rightarrow> bool" where
  "isWhiteSpace c = (code c \<in> {9, 10, 11, 12, 13, 32, 160})"

definition trim :: "string \<Rightarrow> string" where
  "trim s = rev (dropWhile isWhiteSpace (rev (dropWhile isWhiteSpace s)))"

text \<open>\<open>\w\<close> without the unicode flag: \<open>[A-Za-z0-9_]\<close>.\<close>

definition isWordChar :: "char \<Rightarrow> bool" where
  "isWordChar c = (let n = code c in
     (48 \<le> n \<and> n \<le> 57) \<or> (65 \<le> n \<and> n \<le> 90) \<or> n = 95 \<or> (97 \<le> n \<and> n \<le> 122))"

text \<open>
  \<open>toLowerCase\<close>: A to Z, and U+00C0 to U+00DE except the multiplication sign U+00D7,
  move up by 32; every other code unit of the range is unchanged.
\<close>

definition lowerChar :: "char \<Rightarrow> char" where
  "lowerChar c = (let n = code c in
     if (65 \<le> n \<and> n \<le> 90) \<or> (192 \<le> n \<and> n \<le> 222 \<and> n \<noteq> 215)
     then char_of (n + 32) else c)"

definition toLowerCase :: "string \<Rightarrow> string" where
  "toLowerCase s = map lowerChar s"

text \<open>
  \<open>toUpperCase\<close> is only applied to the text of an operator match, which is ASCII:
  a to z move down by 32.
\<close>

definition upperChar :: "char \<Rightarrow> char" where
  "upperChar c = (let n = code c in
     if 97 \<le> n \<and> n \<le> 122 then char_of (n - 32) else c)"

definition toUpperCase :: "string \<Rightarrow> string" where
  "toUpperCase s = map upperChar s"

text \<open>
  \<open>normalize("NFD")\<close>: the canonical decompositions of the range, as code units. Each
  is a base letter followed by one combining mark (grave 0x300, acute 0x301,
  circumflex 0x302, tilde 0x303, diaeresis 0x308, ring 0x30A, cedilla 0x327).
  No code unit of the range is itself a combining mark, so no reordering arises.
\<close>

definition decompositions :: "(int \<times> int list) list" where
  "decompositions =
    [(0xC0, [0x41, 0x300]), (0xC1, [0x41, 0x301]), (0xC2, [0x41, 0x302]),
     (0xC3, [0x41, 0x303]), (0xC4, [0x41, 0x308]), (0xC5, [0x41, 0x30A]),
     (0xC7, [0x43, 0x327]),
     (0xC8, [0x45, 0x300]), (0xC9, [0x45, 0x301]), (0xCA, [0x45, 0x302]),
     (0xCB, [0x45, 0x308]),
     (0xCC, [0x49, 0x300]), (0xCD, [0x49, 0x301]), (0xCE, [0x49, 0x302]),
     (0xCF, [0x49, 0x308]),
     (0xD1, [0x4E, 0x303]),
     (0xD2, [0x4F, 0x300]), (0xD3, [0x4F, 0x301]), (0xD4, [0x4F, 0x302]),
     (0xD5, [0x4F, 0x303]), (0xD6, [0x4F, 0x308]),
     (0xD9, [0x55, 0x300]), (0xDA, [0x55, 0x301]), (0xDB, [0x55, 0x302]),
     (0xDC, [0x55, 0x308]), (0xDD, [0x59, 0x301]),
     (0xE0, [0x61, 0x300]), (0xE1, [0x61, 0x301]), (0xE2, [0x61, 0x302]),
     (0xE3, [0x61, 0x303]), (0xE4, [0x61, 0x308]), (0xE5, [0x61, 0x30A]),
     (0xE7, [0x63, 0x327]),
     (0xE8, [0x65, 0x300]), (0xE9, [0x65, 0x301]), (0xEA, [0x65, 0x302]),
     (0xEB, [0x65, 0x308]),
     (0xEC, [0x69, 0x300]), (0xED, [0x69, 0x301]), (0xEE, [0x69, 0x302]),
     (0xEF, [0x69, 0x308]),
     (0xF1, [0x6E, 0x303]),
     (0xF2, [0x6F, 0x300]), (0xF3, [0x6F, 0x301]), (0xF4, [0x6F, 0x302]),
     (0xF5, [0x6F, 0x303]), (0xF6, [0x6F, 0x308]),
     (0xF9, [0x75, 0x300]), (0xFA, [0x75, 0x301]), (0xFB, [0x75, 0x302]),
     (0xFC, [0x75, 0x308]), (0xFD, [0x79, 0x301]), (0xFF, [0x79, 0x308])]"

definition decompose :: "char \<Rightarrow> int list" where
  "decompose c = (case map_of decompositions (code c) of
     Some us \<Rightarrow> us | None \<Rightarrow> [code c])"

definition nfd :: "string \<Rightarrow> int list" where
  "nfd s = concat (map decompose s)"

text \<open>The \<open>replace\<close> call deletes every code unit from U+0300 to U+036F.\<close>

definition isCombiningMark :: "int \<Rightarrow> bool" where
  "isCombiningMark u = (0x300 \<le> u \<and> u \<le> 0x36F)"

definition stripMarks :: "int list \<Rightarrow> string" where
  "stripMarks us = map char_of (filter (\<lambda>u. \<not> isCombiningMark u) us)"

text \<open>\<open>String.prototype.includes\<close>: the argument occurs as a contiguous run.\<close>

definition includes_str :: "string \<Rightarrow> string \<Rightarrow> bool" where
  "includes_str s t = sublist t s"

text \<open>
  \<open>split\<close> with a pattern that matches one or more characters of a class, as in
  \<open>split(/\W+/)\<close> and \<open>split(/\s+/)\<close>: the pieces between the maximal runs of
  separator characters, with an empty string where the text starts or ends with a
  separator; the empty text gives one empty string.
\<close>

function splitRuns :: "(char \<Rightarrow> bool) \<Rightarrow> string \<Rightarrow> string list" where
  "splitRuns sep s =
     (let piece = takeWhile (\<lambda>c. \<not> sep c) s; rest = dropWhile (\<lambda>c. \<not> sep c) s
      in if rest = [] then [piece]
         else piece # splitRuns sep (dropWhile sep rest))"
  by pat_completeness auto
termination
proof (relation "measure (\<lambda>(sep, s). length s)")
  fix sep :: "char \<Rightarrow> bool" and s piece rest
  assume r: "rest = dropWhile (\<lambda>c. \<not> sep c) s" and ne: "rest \<noteq> []"
  have "length (dropWhile sep rest) < length rest"
  proof (cases rest)
    case Nil
    with ne show ?thesis by simp
  next
    case (Cons c cs)
    with r have "sep c"
      by (metis hd_dropWhile list.sel(1) list.simps(3))
    with Cons show ?thesis
      by (simp add: le_imp_less_Suc length_dropWhile_le)
  qed
  also have "length rest \<le> length s"
    using r by (simp add: length_dropWhile_le)
  finally show "((sep, dropWhile sep rest), (sep, s)) \<in> measure (\<lambda>(sep, s). length s)"
    by simp
qed simp

declare splitRuns.simps [simp del]

definition splitNonWord :: "string \<Rightarrow> string list" where
  "splitNonWord s = splitRuns (\<lambda>c. \<not> isWordChar c) s"

section \<open>Search helpers\<close>

subsection \<open>normalizeText\<close>

definition normalizeText :: "string \<Rightarrow> string" where
  "normalizeText text = stripMarks (nfd (toLowerCase text))"


subsection \<open>getLevenshteinDistance\<close>

text \<open>
  The matrix has \<open>length b + 1\<close> rows of \<open>length a + 1\<close> cells, filled with \<open>null\<close>, which
  arithmetic reads as 0; row 0 and column 0 are then set, and the nested loops fill
  the rest row by row.
\<close>

type_synonym matrix = "nat list list"

definition cell :: "matrix \<Rightarrow> nat \<Rightarrow> nat \<Rightarrow> nat" where
  "cell m j i = m ! j ! i"

definition setCell :: "matrix \<Rightarrow> nat \<Rightarrow> nat \<Rightarrow> nat \<Rightarrow> matrix" where
  "setCell m j i v = m[j := (m ! j)[i := v]]"

definition fillCell :: "string \<Rightarrow> string \<Rightarrow> nat \<Rightarrow> matrix \<Rightarrow> nat \<Rightarrow> matrix" where
  "fillCell a b j m i =
     (let indicator = (if a ! (i - 1) = b ! (j - 1) then 0 else 1)
      in setCell m j i
           (min (min (cell m j (i - 1) + 1) (cell m (j - 1) i + 1))
                (cell m (j - 1) (i - 1) + indicator)))"

definition fillRow :: "string \<Rightarrow> string \<Rightarrow> matrix \<Rightarrow> nat \<Rightarrow> matrix" where
  "fillRow a b m j = foldl (fillCell a b j) m [1..<length a + 1]"

definition getLevenshteinDistance :: "string \<Rightarrow> string \<Rightarrow> nat" where
  "getLevenshteinDistance a b =
     (if length a = 0 then length b
      else if length b = 0 then length a
      else
        let matrix0 = replicate (length b + 1) (replicate (length a + 1) 0);
            matrix1 = foldl (\<lambda>m i. setCell m 0 i i) matrix0 [0..<length a + 1];
            matrix2 = foldl (\<lambda>m j. setCell m j 0 j) matrix1 [0..<length b + 1];
            matrix3 = foldl (fillRow a b) matrix2 [1..<length b + 1]
        in cell matrix3 (length b) (length a))"

subsection \<open>matchTerm\<close>

text \<open>The loop over the words: a word of unsuitable length is skipped.\<close>

fun matchWords :: "string \<Rightarrow> nat \<Rightarrow> string list \<Rightarrow> bool" where
  "matchWords termNorm threshold [] = False"
| "matchWords termNorm threshold (word # words) =
     (if \<bar>int (length word) - int (length termNorm)\<bar> > int threshold
      then matchWords termNorm threshold words
      else if getLevenshteinDistance word termNorm \<le> threshold then True
      else matchWords termNorm threshold words)"

definition matchTerm :: "string \<Rightarrow> string \<Rightarrow> bool" where
  "matchTerm contentNormalized term =
     (let termNorm = normalizeText term
      in if includes_str contentNormalized termNorm then True
         else if length termNorm > 3 \<and> \<not> includes_str termNorm '' ''
         then
           (let words = splitNonWord contentNormalized;
                threshold = (if length termNorm \<le> 5 then 1 else 2)
            in matchWords termNorm threshold words)
         else False)"

section \<open>evaluateBooleanQuery\<close>

subsection \<open>The tokenizer\<close>

text \<open>A token is \<open>{type: 'TERM', value}\<close> or \<open>{type: 'OP', value}\<close>.\<close>

datatype token = Term string | Op string

text \<open>
  The pattern has three alternatives, tried in this order at one position: a quoted
  phrase (group 1 is the text between the quotes, at least one character), an
  operator (group 2, letters in either case), a run of characters that are neither
  white space nor one of \<open>( ) " + -\<close> (group 3). Each function returns the captured
  text and the input after the match.
\<close>

definition quote :: char where
  "quote = CHR 0x22"

definition quotedPhrase :: "string \<Rightarrow> (string \<times> string) option" where
  "quotedPhrase s =
     (case s of
        [] \<Rightarrow> None
      | c # cs \<Rightarrow>
          if c \<noteq> quote then None
          else
            let body = takeWhile (\<lambda>x. x \<noteq> quote) cs;
                rest = dropWhile (\<lambda>x. x \<noteq> quote) cs
            in if body = [] \<or> rest = [] then None else Some (body, tl rest))"

definition operators :: "string list" where
  "operators = [''('', '')'', ''OR'', ''AND'', ''NOT'', ''+'', ''-'']"

text \<open>
  Matching one operator word, character by character and ignoring case; the result is
  the input after the word. Only the letters of Basic Latin are concerned: no other
  character has an operator letter as its upper case.
\<close>

fun operatorWord :: "string \<Rightarrow> string \<Rightarrow> string option" where
  "operatorWord [] s = Some s"
| "operatorWord (p # ps) [] = None"
| "operatorWord (p # ps) (c # cs) = (if upperChar c = p then operatorWord ps cs else None)"

fun operatorAt :: "string list \<Rightarrow> string \<Rightarrow> (string \<times> string) option" where
  "operatorAt [] s = None"
| "operatorAt (p # ps) s =
     (case operatorWord p s of
        Some rest \<Rightarrow> Some (take (length p) s, rest)
      | None \<Rightarrow> operatorAt ps s)"

definition isTermChar :: "char \<Rightarrow> bool" where
  "isTermChar c =
     (\<not> isWhiteSpace c \<and> c \<notin> {CHR ''('', CHR '')'', quote, CHR ''+'', CHR ''-''})"

definition bareWord :: "string \<Rightarrow> (string \<times> string) option" where
  "bareWord s =
     (let w = takeWhile isTermChar s
      in if w = [] then None else Some (w, dropWhile isTermChar s))"

record regexMatch =
  group1 :: "string option"
  group2 :: "string option"
  group3 :: "string option"

definition matchAt :: "string \<Rightarrow> (regexMatch \<times> string) option" where
  "matchAt s =
     (case quotedPhrase s of
        Some (g, r) \<Rightarrow> Some (\<lparr>group1 = Some g, group2 = None, group3 = None\<rparr>, r)
      | None \<Rightarrow>
          (case operatorAt operators s of
             Some (g, r) \<Rightarrow> Some (\<lparr>group1 = None, group2 = Some g, group3 = None\<rparr>, r)
           | None \<Rightarrow>
               (case bareWord s of
                  Some (g, r) \<Rightarrow> Some (\<lparr>group1 = None, group2 = None, group3 = Some g\<rparr>, r)
                | None \<Rightarrow> None)))"

text \<open>\<open>regex.exec\<close>: the leftmost position from which the pattern matches.\<close>

fun exec :: "string \<Rightarrow> (regexMatch \<times> string) option" where
  "exec [] = None"
| "exec (c # cs) =
     (case matchAt (c # cs) of Some r \<Rightarrow> Some r | None \<Rightarrow> exec cs)"

text \<open>A capture group in a condition: undefined and the empty string are falsy.\<close>

definition truthyGroup :: "string option \<Rightarrow> string option" where
  "truthyGroup g = (case g of None \<Rightarrow> None | Some v \<Rightarrow> if v = [] then None else Some v)"

definition tokenOf :: "regexMatch \<Rightarrow> token list" where
  "tokenOf m =
     (case truthyGroup (group1 m) of
        Some v \<Rightarrow> [Term v]
      | None \<Rightarrow>
          (case truthyGroup (group2 m) of
             Some v \<Rightarrow> [Op (toUpperCase v)]
           | None \<Rightarrow>
               (case truthyGroup (group3 m) of
                  Some v \<Rightarrow> [Term v]
                | None \<Rightarrow> [])))"

function tokenize :: "string \<Rightarrow> token list" where
  "tokenize query =
     (case exec query of
        None \<Rightarrow> []
      | Some (m, rest) \<Rightarrow> tokenOf m @ tokenize rest)"
  by pat_completeness auto
termination
proof (relation "measure length")
  fix query :: string and x m rest
  assume e: "exec query = Some x" and x: "(m, rest) = x"
  have ow: "operatorWord p s = Some r \<Longrightarrow> p \<noteq> [] \<Longrightarrow> length r < length s" for p s r
  proof (induction p s rule: operatorWord.induct)
    case (3 p ps c cs)
    then show ?case
      by (cases ps) (auto split: if_splits)
  qed simp_all
  have op: "operatorAt ps s = Some (g, r) \<Longrightarrow> [] \<notin> set ps \<Longrightarrow> length r < length s"
    for ps s g r
  proof (induction ps)
    case Nil
    then show ?case by simp
  next
    case (Cons p ps)
    then show ?case
      using ow [of p s r] by (auto split: option.splits)
  qed
  have at: "matchAt s = Some (m', r) \<Longrightarrow> length r < length s" for s m' r
  proof -
    assume a: "matchAt s = Some (m', r)"
    have q: "quotedPhrase s = Some (g, r') \<Longrightarrow> length r' < length s" for g r'
    proof -
      assume "quotedPhrase s = Some (g, r')"
      then obtain c cs where s: "s = c # cs"
        and r': "r' = tl (dropWhile (\<lambda>x. x \<noteq> quote) cs)"
        by (auto simp: quotedPhrase_def Let_def split: list.splits if_splits)
      have "length (tl (dropWhile (\<lambda>x. x \<noteq> quote) cs)) \<le> length cs"
        using length_dropWhile_le [of "\<lambda>x. x \<noteq> quote" cs] by simp
      with s r' show ?thesis by simp
    qed
    have w: "bareWord s = Some (g, r') \<Longrightarrow> length r' < length s" for g r'
    proof -
      assume b: "bareWord s = Some (g, r')"
      then have ne: "takeWhile isTermChar s \<noteq> []" and r': "r' = dropWhile isTermChar s"
        by (auto simp: bareWord_def Let_def split: if_splits)
      have "length (takeWhile isTermChar s) + length (dropWhile isTermChar s) = length s"
        by (metis length_append takeWhile_dropWhile_id)
      with ne r' show ?thesis by (cases "takeWhile isTermChar s") auto
    qed
    have o: "operatorAt operators s = Some (g, r') \<Longrightarrow> length r' < length s" for g r'
      using op [of operators s g r'] by (simp add: operators_def)
    show ?thesis
    proof (cases "quotedPhrase s")
      case (Some p)
      with a q [of "fst p" "snd p"] show ?thesis
        by (simp add: matchAt_def split: prod.splits)
    next
      case None
      note nq = this
      show ?thesis
      proof (cases "operatorAt operators s")
        case (Some p)
        with a nq o [of "fst p" "snd p"] show ?thesis
          by (simp add: matchAt_def split: prod.splits)
      next
        case None
        with a nq w show ?thesis
          by (cases "bareWord s") (auto simp: matchAt_def)
      qed
    qed
  qed
  have ex: "exec s = Some (m', r) \<Longrightarrow> length r < length s" for s m' r
  proof (induction s)
    case Nil
    then show ?case by simp
  next
    case (Cons c cs)
    then show ?case
      using at [of "c # cs" m' r] by (auto split: option.splits)
  qed
  from e x show "(rest, query) \<in> measure length"
    using ex [of query m rest] by simp
qed simp

declare tokenize.simps [simp del]

subsection \<open>Infix to postfix\<close>

text \<open>
  Both stacks are arrays used with \<open>push\<close> and \<open>pop\<close>: the top is the last element,
  and \<open>pop\<close> on the empty array leaves it empty. The precedence table is a record read
  by key; comparing with a missing entry is false.
\<close>

definition precedence :: "string \<Rightarrow> nat option" where
  "precedence =
     map_of [(''NOT'', 3), (''-'', 3), (''AND'', 2), (''+'', 2), (''OR'', 1), (''('', 0)]"

definition geq :: "nat option \<Rightarrow> nat option \<Rightarrow> bool" where
  "geq x y = (case (x, y) of (Some p, Some q) \<Rightarrow> p \<ge> q | _ \<Rightarrow> False)"

function popToParen :: "string list \<Rightarrow> token list \<Rightarrow> string list \<times> token list" where
  "popToParen operatorStack outputQueue =
     (if length operatorStack > 0 \<and> last operatorStack \<noteq> ''(''
      then popToParen (butlast operatorStack) (outputQueue @ [Op (last operatorStack)])
      else (operatorStack, outputQueue))"
  by pat_completeness auto
termination
  by (relation "measure (\<lambda>(st, out). length st)") auto

function popHigher :: "string \<Rightarrow> string list \<Rightarrow> token list \<Rightarrow> string list \<times> token list" where
  "popHigher v operatorStack outputQueue =
     (if length operatorStack > 0 \<and> geq (precedence (last operatorStack)) (precedence v)
      then popHigher v (butlast operatorStack) (outputQueue @ [Op (last operatorStack)])
      else (operatorStack, outputQueue))"
  by pat_completeness auto
termination
  by (relation "measure (\<lambda>(v, st, out). length st)") auto

function popAll :: "string list \<Rightarrow> token list \<Rightarrow> token list" where
  "popAll operatorStack outputQueue =
     (if length operatorStack > 0
      then popAll (butlast operatorStack) (outputQueue @ [Op (last operatorStack)])
      else outputQueue)"
  by pat_completeness auto
termination
  by (relation "measure (\<lambda>(st, out). length st)") auto

declare popToParen.simps [simp del] popHigher.simps [simp del] popAll.simps [simp del]

fun shunt :: "token list \<times> string list \<Rightarrow> token \<Rightarrow> token list \<times> string list" where
  "shunt (outputQueue, operatorStack) (Term v) = (outputQueue @ [Term v], operatorStack)"
| "shunt (outputQueue, operatorStack) (Op v) =
     (if v = ''('' then (outputQueue, operatorStack @ [v])
      else if v = '')'' then
        (let (st, out) = popToParen operatorStack outputQueue in (out, butlast st))
      else
        (let (st, out) = popHigher v operatorStack outputQueue in (out, st @ [v])))"

definition toPostfix :: "token list \<Rightarrow> token list" where
  "toPostfix tokens =
     (let (outputQueue, operatorStack) = foldl shunt ([], []) tokens
      in popAll operatorStack outputQueue)"

subsection \<open>Postfix evaluation\<close>

text \<open>
  \<open>pop\<close> gives \<open>undefined\<close> on the empty stack; \<open>!undefined\<close> is true and
  \<open>undefined || false\<close> is false.
\<close>

definition pop :: "bool list \<Rightarrow> bool option \<times> bool list" where
  "pop st = (if st = [] then (None, []) else (Some (last st), butlast st))"

definition truthy :: "bool option \<Rightarrow> bool" where
  "truthy v = (v = Some True)"

fun evalToken :: "string \<Rightarrow> bool list \<Rightarrow> token \<Rightarrow> bool list" where
  "evalToken normalizedContent evalStack (Term v) =
     evalStack @ [matchTerm normalizedContent v]"
| "evalToken normalizedContent evalStack (Op op) =
     (if op = ''NOT'' \<or> op = ''-'' then
        (let (a, st1) = pop evalStack in st1 @ [\<not> truthy a])
      else
        (let (b, st1) = pop evalStack;
             (a, st2) = pop st1
         in if op = ''AND'' \<or> op = ''+'' then st2 @ [truthy a \<and> truthy b]
            else if op = ''OR'' then st2 @ [truthy a \<or> truthy b]
            else st2))"

definition evalPostfix :: "string \<Rightarrow> token list \<Rightarrow> bool list" where
  "evalPostfix normalizedContent outputQueue =
     foldl (evalToken normalizedContent) [] outputQueue"

definition evaluateBooleanQuery :: "string \<Rightarrow> string \<Rightarrow> bool" where
  "evaluateBooleanQuery content query =
     (if trim query = [] then True
      else
        let normalizedContent = normalizeText content;
            tokens = tokenize query;
            outputQueue = toPostfix tokens;
            evalStack = evalPostfix normalizedContent outputQueue
        in if length evalStack > 0 then evalStack ! 0 else False)"


section \<open>Numbers, dates and the session data model\<close>

text \<open>
  A JavaScript number, as far as the filters need it: \<open>NaN\<close>, the two infinities, or a
  finite value. Finite arithmetic is exact here; a double differs from it by
  rounding only.
\<close>

datatype jsnum = NaN | NegInf | Fin rat | PosInf

fun jsAdd :: "jsnum \<Rightarrow> jsnum \<Rightarrow> jsnum" where
  "jsAdd NaN y = NaN"
| "jsAdd x NaN = NaN"
| "jsAdd (Fin a) (Fin b) = Fin (a + b)"
| "jsAdd PosInf NegInf = NaN"
| "jsAdd NegInf PosInf = NaN"
| "jsAdd PosInf y = PosInf"
| "jsAdd NegInf y = NegInf"
| "jsAdd x PosInf = PosInf"
| "jsAdd x NegInf = NegInf"

fun jsNeg :: "jsnum \<Rightarrow> jsnum" where
  "jsNeg NaN = NaN"
| "jsNeg NegInf = PosInf"
| "jsNeg PosInf = NegInf"
| "jsNeg (Fin a) = Fin (- a)"

definition jsSub :: "jsnum \<Rightarrow> jsnum \<Rightarrow> jsnum" where
  "jsSub x y = jsAdd x (jsNeg y)"

fun jsMul :: "jsnum \<Rightarrow> jsnum \<Rightarrow> jsnum" where
  "jsMul NaN y = NaN"
| "jsMul x NaN = NaN"
| "jsMul (Fin a) (Fin b) = Fin (a * b)"
| "jsMul (Fin a) PosInf = (if a = 0 then NaN else if a > 0 then PosInf else NegInf)"
| "jsMul (Fin a) NegInf = (if a = 0 then NaN else if a > 0 then NegInf else PosInf)"
| "jsMul PosInf (Fin b) = (if b = 0 then NaN else if b > 0 then PosInf else NegInf)"
| "jsMul NegInf (Fin b) = (if b = 0 then NaN else if b > 0 then NegInf else PosInf)"
| "jsMul PosInf PosInf = PosInf"
| "jsMul NegInf NegInf = PosInf"
| "jsMul PosInf NegInf = NegInf"
| "jsMul NegInf PosInf = NegInf"

text \<open>\<open>x < y\<close> on numbers: false as soon as one side is \<open>NaN\<close>.\<close>

fun jsLess :: "jsnum \<Rightarrow> jsnum \<Rightarrow> bool" where
  "jsLess NaN y = False"
| "jsLess x NaN = False"
| "jsLess (Fin a) (Fin b) = (a < b)"
| "jsLess NegInf NegInf = False"
| "jsLess NegInf y = True"
| "jsLess x NegInf = False"
| "jsLess PosInf y = False"
| "jsLess x PosInf = True"

definition isNaN :: "jsnum \<Rightarrow> bool" where
  "isNaN x = (x = NaN)"

text \<open>\<open>x || 0\<close> on a number: \<open>NaN\<close> and zero are falsy.\<close>

definition orZero :: "jsnum \<Rightarrow> jsnum" where
  "orZero x = (if x = NaN \<or> x = Fin 0 then Fin 0 else x)"

text \<open>
  \<open>parseInt\<close>: leading white space, an optional sign, then the longest run of digits;
  \<open>NaN\<close> when there is no digit. Without a radix argument a \<open>0x\<close> prefix selects
  base 16.
\<close>

definition digitValue :: "char \<Rightarrow> nat option" where
  "digitValue c = (let n = code c in
     if 48 \<le> n \<and> n \<le> 57 then Some (nat (n - 48))
     else if 97 \<le> n \<and> n \<le> 122 then Some (nat (n - 87))
     else if 65 \<le> n \<and> n \<le> 90 then Some (nat (n - 55))
     else None)"

definition isDigitOf :: "nat \<Rightarrow> char \<Rightarrow> bool" where
  "isDigitOf radix c = (case digitValue c of None \<Rightarrow> False | Some v \<Rightarrow> v < radix)"

definition digitsValue :: "nat \<Rightarrow> string \<Rightarrow> nat" where
  "digitsValue radix ds =
     foldl (\<lambda>acc c. acc * radix + (case digitValue c of None \<Rightarrow> 0 | Some v \<Rightarrow> v)) 0 ds"

definition parseDigits :: "nat \<Rightarrow> bool \<Rightarrow> string \<Rightarrow> jsnum" where
  "parseDigits radix negative s =
     (let ds = takeWhile (isDigitOf radix) s
      in if ds = [] then NaN
         else Fin (if negative then - rat_of_nat (digitsValue radix ds)
                   else rat_of_nat (digitsValue radix ds)))"

definition hasHexPrefix :: "string \<Rightarrow> bool" where
  "hasHexPrefix s = (take 2 s = ''0x'' \<or> take 2 s = ''0X'')"

definition parseInt :: "string \<Rightarrow> nat option \<Rightarrow> jsnum" where
  "parseInt str radix =
     (let s = dropWhile isWhiteSpace str;
          negative = (take 1 s = ''-'');
          s1 = (if take 1 s = ''-'' \<or> take 1 s = ''+'' then drop 1 s else s)
      in case radix of
           Some r \<Rightarrow> parseDigits r negative s1
         | None \<Rightarrow>
             if hasHexPrefix s1 then parseDigits 16 negative (drop 2 s1)
             else parseDigits 10 negative s1)"

text \<open>
  What the platform decides, taken as parameters: \<open>Number(s)\<close> on a string, the time
  value of \<open>new Date(s)\<close> and of \<open>new Date(year, monthIndex, day)\<close> (in the local time
  zone; \<open>NaN\<close> for an invalid date), \<open>localeCompare\<close>, and the string that the property
  of \<open>Object.prototype\<close> with a given name converts to.
\<close>

record runtime =
  Number :: "string \<Rightarrow> jsnum"
  dateOfString :: "string \<Rightarrow> jsnum"
  dateOfFields :: "jsnum \<Rightarrow> jsnum \<Rightarrow> jsnum \<Rightarrow> jsnum"
  localeCompare :: "string \<Rightarrow> string \<Rightarrow> jsnum"
  stringOfInherited :: "string \<Rightarrow> string"

text \<open>\<open>split\<close> at every occurrence of one character; empty pieces are kept.\<close>

fun splitChar :: "char \<Rightarrow> string \<Rightarrow> string list" where
  "splitChar sep [] = [[]]"
| "splitChar sep (c # cs) =
     (if c = sep then [] # splitChar sep cs
      else (case splitChar sep cs of
              [] \<Rightarrow> [[c]]
            | piece # pieces \<Rightarrow> (c # piece) # pieces))"

text \<open>Relational comparison of two strings: code unit by code unit, a prefix first.\<close>

fun stringLess :: "string \<Rightarrow> string \<Rightarrow> bool" where
  "stringLess [] [] = False"
| "stringLess [] (y # ys) = True"
| "stringLess (x # xs) [] = False"
| "stringLess (x # xs) (y # ys) = (code x < code y \<or> (x = y \<and> stringLess xs ys))"

definition stringLessEq :: "string \<Rightarrow> string \<Rightarrow> bool" where
  "stringLessEq x y = (x = y \<or> stringLess x y)"

text \<open>Truthiness of a string and of an optional string.\<close>

definition truthyString :: "string \<Rightarrow> bool" where
  "truthyString s = (s \<noteq> [])"

definition truthyField :: "string option \<Rightarrow> bool" where
  "truthyField v = (case v of None \<Rightarrow> False | Some s \<Rightarrow> s \<noteq> [])"

datatype sessionType = AUDIO | SMS

record ParsedSession =
  target :: string
  sourceNumber :: "string option"
  sourceName :: "string option"
  destinationNumber :: "string option"
  destinationName :: "string option"
  sessionId :: string
  date :: string
  startTime :: "string option"
  endTime :: "string option"
  duration :: "string option"
  type :: sessionType
  content :: string
  legalReferenceIds :: "string list option"

record SavedTag =
  tagId :: string
  sessionIds :: "string list"

text \<open>
  The alias map is a plain object: \<open>{}\<close> at the start, then object literals that
  spread earlier maps. The map below holds its own properties, which are strings.
  Reading a property that the object does not own goes on to \<open>Object.prototype\<close>: its
  properties are functions, and the accessor \<open>__proto__\<close> gives the prototype object
  itself. All of them are truthy and none is a string.
\<close>

type_synonym AliasMap = "string \<rightharpoonup> string"

datatype jsvalue = Str string | Inherited string

definition objectPrototype :: "string list" where
  "objectPrototype =
     [''constructor'', ''__defineGetter__'', ''__defineSetter__'', ''hasOwnProperty'',
      ''__lookupGetter__'', ''__lookupSetter__'', ''isPrototypeOf'', ''propertyIsEnumerable'',
      ''toString'', ''valueOf'', ''__proto__'', ''toLocaleString'']"

definition getProperty :: "AliasMap \<Rightarrow> string \<Rightarrow> jsvalue option" where
  "getProperty aliasMap key =
     (case aliasMap key of
        Some alias \<Rightarrow> Some (Str alias)
      | None \<Rightarrow> if key \<in> set objectPrototype then Some (Inherited key) else None)"

text \<open>Truthiness of a value that may be undefined, and \<open>includes\<close> on an array of strings.\<close>

definition truthyValue :: "jsvalue option \<Rightarrow> bool" where
  "truthyValue v =
     (case v of None \<Rightarrow> False | Some (Str s) \<Rightarrow> s \<noteq> [] | Some (Inherited key) \<Rightarrow> True)"

definition includesValue :: "string list \<Rightarrow> jsvalue option \<Rightarrow> bool" where
  "includesValue xs v = (case v of Some (Str s) \<Rightarrow> s \<in> set xs | _ \<Rightarrow> False)"

record LegalReference =
  refId :: string
  label :: string

text \<open>
  The committed filter inputs. The \<open>session\<close> and \<open>content\<close> inputs are named \<open>sessionF\<close>
  and \<open>contentF\<close> here.
\<close>

record ActiveFilters =
  sessionF :: string
  contentF :: string
  dateStart :: string
  dateEnd :: string
  timeStart :: string
  timeEnd :: string
  sourceNumbers :: "string list"
  destNumbers :: "string list"
  sourceSpeakers :: "string list"
  destSpeakers :: "string list"
  minDuration :: string
  maxDuration :: string
  legalArticle :: "string list"
  legalFact :: "string list"
  legalTag :: "string list"

section \<open>The filter pipeline\<close>

text \<open>
  Calling a method on \<open>undefined\<close> or \<open>null\<close> throws a \<open>TypeError\<close>. Every place where
  the source calls a method on a value whose type admits \<open>undefined\<close> or \<open>null\<close> goes
  through \<open>callMethod\<close>, so that a missing guard would show as an error result.
\<close>

datatype error = TypeError

definition callMethod :: "'a option \<Rightarrow> ('a \<Rightarrow> 'b) \<Rightarrow> error + 'b" where
  "callMethod receiver f = (case receiver of None \<Rightarrow> Inl TypeError | Some v \<Rightarrow> Inr (f v))"

definition bindE :: "error + 'a \<Rightarrow> ('a \<Rightarrow> error + 'b) \<Rightarrow> error + 'b" where
  "bindE r k = (case r of Inl e \<Rightarrow> Inl e | Inr v \<Rightarrow> k v)"

subsection \<open>parseDurationToSeconds\<close>

definition parseDurationToSeconds :: "runtime \<Rightarrow> string option \<Rightarrow> error + jsnum" where
  "parseDurationToSeconds rt dur =
     (if \<not> truthyField dur then Inr (Fin 0)
      else
        bindE (callMethod dur (\<lambda>d. map (Number rt) (splitChar CHR '':'' d))) (\<lambda>parts.
          if length parts = 3 then
            Inr (jsAdd (jsAdd (jsMul (parts ! 0) (Fin 3600)) (jsMul (parts ! 1) (Fin 60)))
                   (parts ! 2))
          else if length parts = 2 then
            Inr (jsAdd (jsMul (parts ! 0) (Fin 60)) (parts ! 1))
          else Inr (Fin 0)))"

subsection \<open>resolve, parseDate, isTimeInRange\<close>

text \<open>\<open>aliasMap[val] || val\<close>, after the guard on a missing or empty \<open>val\<close>.\<close>

definition resolve :: "AliasMap \<Rightarrow> string option \<Rightarrow> jsvalue option" where
  "resolve aliasMap val =
     (case val of
        None \<Rightarrow> None
      | Some v \<Rightarrow>
          if v = [] then None
          else if truthyValue (getProperty aliasMap v) then getProperty aliasMap v
          else Some (Str v))"

text \<open>The result is the time value of the date object, or \<open>None\<close> for \<open>null\<close>.\<close>

definition parseDate :: "runtime \<Rightarrow> string \<Rightarrow> jsnum option" where
  "parseDate rt dateStr =
     (let parts = splitChar CHR ''.'' dateStr
      in if length parts = 3
         then Some (dateOfFields rt (parseInt (parts ! 2) None)
                      (jsSub (parseInt (parts ! 1) None) (Fin 1))
                      (parseInt (parts ! 0) None))
         else None)"

definition isTimeInRange :: "string option \<Rightarrow> string \<Rightarrow> string \<Rightarrow> error + bool" where
  "isTimeInRange time start end' =
     (if \<not> truthyField time then Inr False
      else
        bindE (callMethod time (take 5)) (\<lambda>t.
          if truthyString start \<and> truthyString end' then
            Inr (if stringLessEq start end'
                 then stringLessEq start t \<and> stringLessEq t end'
                 else stringLessEq start t \<or> stringLessEq t end')
          else if truthyString start then Inr (stringLessEq start t)
          else if truthyString end' then Inr (stringLessEq t end')
          else Inr True))"

subsection \<open>The per-session predicate\<close>

text \<open>
  Each block of the filter callback that can return false is one stage: \<open>Inr False\<close>
  is the early \<open>return false\<close>, \<open>Inr True\<close> falls through to the next block.
\<close>

definition andThen :: "error + bool \<Rightarrow> error + bool \<Rightarrow> error + bool" where
  "andThen stage next =
     (case stage of Inl e \<Rightarrow> Inl e | Inr False \<Rightarrow> Inr False | Inr True \<Rightarrow> next)"

definition durationStage :: "runtime \<Rightarrow> ActiveFilters \<Rightarrow> ParsedSession \<Rightarrow> error + bool" where
  "durationStage rt f s =
     (if truthyString (minDuration f) \<or> truthyString (maxDuration f) then
        if type s \<noteq> AUDIO then Inr False
        else
          bindE (parseDurationToSeconds rt (duration s)) (\<lambda>durationSec.
            if truthyString (minDuration f) \<and>
               \<not> isNaN (parseInt (minDuration f) (Some 10)) \<and>
               jsLess durationSec (parseInt (minDuration f) (Some 10))
            then Inr False
            else if truthyString (maxDuration f) \<and>
               \<not> isNaN (parseInt (maxDuration f) (Some 10)) \<and>
               jsLess (parseInt (maxDuration f) (Some 10)) durationSec
            then Inr False
            else Inr True)
      else Inr True)"

definition memberStage :: "string list \<Rightarrow> jsvalue option \<Rightarrow> bool" where
  "memberStage selected resolved =
     (if length selected > 0
      then truthyValue resolved \<and> includesValue selected resolved
      else True)"

text \<open>
  The speaker pattern on the first line: an upper case letter, then 1 to 30
  characters that are lower case letters, digits, underscore, hyphen or white space,
  then a colon. The colon is not in the repeated class, so the repetition must end
  exactly at the colon.
\<close>

definition isSpeakerInitial :: "char \<Rightarrow> bool" where
  "isSpeakerInitial c = (let n = code c in (65 \<le> n \<and> n \<le> 90) \<or> (0xC0 \<le> n \<and> n \<le> 0xDA))"

definition isSpeakerChar :: "char \<Rightarrow> bool" where
  "isSpeakerChar c = (let n = code c in
     (97 \<le> n \<and> n \<le> 122) \<or> (0xE0 \<le> n \<and> n \<le> 0xFA) \<or> (48 \<le> n \<and> n \<le> 57) \<or>
     n = 95 \<or> n = 45 \<or> isWhiteSpace c)"

definition speakerMatch :: "string \<Rightarrow> string option" where
  "speakerMatch line =
     (case line of
        [] \<Rightarrow> None
      | c # cs \<Rightarrow>
          if \<not> isSpeakerInitial c then None
          else
            let run = takeWhile isSpeakerChar cs; rest = dropWhile isSpeakerChar cs
            in if 1 \<le> length run \<and> length run \<le> 30 \<and> take 1 rest = '':''
               then Some (c # run) else None)"

definition firstLine :: "string \<Rightarrow> string" where
  "firstLine text = (case splitChar CHR 0x0A text of [] \<Rightarrow> [] | line # lines \<Rightarrow> line)"

definition sourceSpeakerStage :: "AliasMap \<Rightarrow> ActiveFilters \<Rightarrow> ParsedSession \<Rightarrow> error + bool" where
  "sourceSpeakerStage aliasMap f s =
     (if length (sourceSpeakers f) > 0 then
        let sName = resolve aliasMap (sourceName s);
            sNumAsName = resolve aliasMap (sourceNumber s);
            matchName = (truthyValue sName \<and> includesValue (sourceSpeakers f) sName);
            matchNum = (truthyValue sNumAsName \<and> includesValue (sourceSpeakers f) sNumAsName)
        in if \<not> matchName \<and> \<not> matchNum then
             let match = speakerMatch (firstLine (content s))
             in if match \<noteq> None then
                  bindE (callMethod match trim) (\<lambda>extracted.
                    Inr (includesValue (sourceSpeakers f) (resolve aliasMap (Some extracted))))
                else Inr False
           else Inr True
      else Inr True)"

definition destSpeakerStage :: "AliasMap \<Rightarrow> ActiveFilters \<Rightarrow> ParsedSession \<Rightarrow> bool" where
  "destSpeakerStage aliasMap f s =
     (if length (destSpeakers f) > 0 then
        let dName = resolve aliasMap (destinationName s);
            dNumAsName = resolve aliasMap (destinationNumber s);
            matchName = (truthyValue dName \<and> includesValue (destSpeakers f) dName);
            matchNum = (truthyValue dNumAsName \<and> includesValue (destSpeakers f) dNumAsName)
        in matchName \<or> matchNum
      else True)"

definition sessionIdStage :: "ActiveFilters \<Rightarrow> ParsedSession \<Rightarrow> bool" where
  "sessionIdStage f s =
     (if truthyString (sessionF f)
      then (\<exists>t \<in> set (splitChar CHR '','' (sessionF f)).
              includes_str (toLowerCase (sessionId s)) (toLowerCase (trim t)))
      else True)"

definition contentStage :: "ActiveFilters \<Rightarrow> ParsedSession \<Rightarrow> bool" where
  "contentStage f s =
     (if truthyString (contentF f) then evaluateBooleanQuery (content s) (contentF f) else True)"

definition dateStage :: "runtime \<Rightarrow> ActiveFilters \<Rightarrow> ParsedSession \<Rightarrow> bool" where
  "dateStage rt f s =
     (if truthyString (dateStart f) \<or> truthyString (dateEnd f) then
        (case parseDate rt (date s) of
           None \<Rightarrow> True
         | Some d \<Rightarrow>
             \<not> ((truthyString (dateStart f) \<and> jsLess d (dateOfString rt (dateStart f))) \<or>
                (truthyString (dateEnd f) \<and> jsLess (dateOfString rt (dateEnd f)) d)))
      else True)"

definition timeStage :: "ActiveFilters \<Rightarrow> ParsedSession \<Rightarrow> error + bool" where
  "timeStage f s =
     (if (truthyString (timeStart f) \<or> truthyString (timeEnd f)) \<and> truthyField (startTime s)
      then isTimeInRange (startTime s) (timeStart f) (timeEnd f)
      else Inr True)"

definition sessionPredicate ::
  "runtime \<Rightarrow> AliasMap \<Rightarrow> ActiveFilters \<Rightarrow> ParsedSession \<Rightarrow> error + bool" where
  "sessionPredicate rt aliasMap f s =
     andThen (durationStage rt f s)
    (andThen (Inr (memberStage (sourceNumbers f) (resolve aliasMap (sourceNumber s))))
    (andThen (Inr (memberStage (destNumbers f) (resolve aliasMap (destinationNumber s))))
    (andThen (sourceSpeakerStage aliasMap f s)
    (andThen (Inr (destSpeakerStage aliasMap f s))
    (andThen (Inr (sessionIdStage f s))
    (andThen (Inr (contentStage f s))
    (andThen (Inr (dateStage rt f s))
             (timeStage f s))))))))"

subsection \<open>filteredSessions\<close>

text \<open>\<open>Array.prototype.filter\<close> with a callback that may throw.\<close>

fun filterE :: "('a \<Rightarrow> error + bool) \<Rightarrow> 'a list \<Rightarrow> error + 'a list" where
  "filterE p [] = Inr []"
| "filterE p (x # xs) =
     bindE (p x) (\<lambda>keep. bindE (filterE p xs) (\<lambda>rest. Inr (if keep then x # rest else rest)))"

definition allowedIds :: "SavedTag list \<Rightarrow> string list \<Rightarrow> string set" where
  "allowedIds savedTags activeTagIds =
     set (concat (map sessionIds (filter (\<lambda>t. tagId t \<in> set activeTagIds) savedTags)))"

definition baseSet ::
  "ParsedSession list \<Rightarrow> string list \<Rightarrow> SavedTag list \<Rightarrow> bool \<Rightarrow> string set \<Rightarrow> ParsedSession list" where
  "baseSet sessions activeTagIds savedTags viewOnlySelected manualSelection =
     (let tagged = (if length activeTagIds > 0
                    then filter (\<lambda>s. sessionId s \<in> allowedIds savedTags activeTagIds) sessions
                    else sessions)
      in if viewOnlySelected then filter (\<lambda>s. sessionId s \<in> manualSelection) tagged
         else tagged)"

definition filteredSessions ::
  "runtime \<Rightarrow> AliasMap \<Rightarrow> ParsedSession list \<Rightarrow> ActiveFilters \<Rightarrow> string list \<Rightarrow> SavedTag list \<Rightarrow>
   bool \<Rightarrow> string set \<Rightarrow> error + ParsedSession list" where
  "filteredSessions rt aliasMap sessions activeFilters activeTagIds savedTags viewOnlySelected
     manualSelection =
     filterE (sessionPredicate rt aliasMap activeFilters)
       (baseSet sessions activeTagIds savedTags viewOnlySelected manualSelection)"

section \<open>The later revision of the filter and the sort stage\<close>

text \<open>
  The second \<open>Explorer\<close> component of \<open>Explorer.tsx\<close> filters with one callback over all
  sessions. Its blocks, in order: tag scope, selection scope, session id, content
  words, date range, time range, duration, the four directional memberships and the
  three legal reference memberships.
\<close>

definition splitWhiteSpace :: "string \<Rightarrow> string list" where
  "splitWhiteSpace s = splitRuns isWhiteSpace s"

definition tagStageV2 :: "string list \<Rightarrow> SavedTag list \<Rightarrow> ParsedSession \<Rightarrow> bool" where
  "tagStageV2 activeTagIds savedTags session =
     (if length activeTagIds > 0
      then (\<exists>tag \<in> set savedTags.
              tagId tag \<in> set activeTagIds \<and> sessionId session \<in> set (sessionIds tag))
      else True)"

definition selectionStageV2 :: "bool \<Rightarrow> string set \<Rightarrow> ParsedSession \<Rightarrow> bool" where
  "selectionStageV2 viewOnlySelected manualSelection session =
     (if viewOnlySelected then sessionId session \<in> manualSelection else True)"

definition sessionIdStageV2 :: "ActiveFilters \<Rightarrow> ParsedSession \<Rightarrow> bool" where
  "sessionIdStageV2 f session =
     (if truthyString (sessionF f) then includes_str (sessionId session) (sessionF f) else True)"

definition contentStageV2 :: "ActiveFilters \<Rightarrow> ParsedSession \<Rightarrow> bool" where
  "contentStageV2 f session =
     (if truthyString (contentF f) then
        (let terms = splitWhiteSpace (toLowerCase (contentF f));
             contentLower = toLowerCase (content session)
         in \<forall>term \<in> set terms. includes_str contentLower term)
      else True)"

definition dateStageV2 :: "runtime \<Rightarrow> ActiveFilters \<Rightarrow> ParsedSession \<Rightarrow> bool" where
  "dateStageV2 rt f session =
     (if truthyString (dateStart f) \<or> truthyString (dateEnd f) then
        (let parts = splitChar CHR ''.'' (date session)
         in if length parts = 3 then
              (let sessDate = dateOfString rt (parts ! 2 @ ''-'' @ parts ! 1 @ ''-'' @ parts ! 0)
               in if truthyString (dateStart f) \<and> jsLess sessDate (dateOfString rt (dateStart f))
                  then False
                  else if truthyString (dateEnd f) \<and> jsLess (dateOfString rt (dateEnd f)) sessDate
                  then False
                  else True)
            else True)
      else True)"

definition timeStageV2 :: "ActiveFilters \<Rightarrow> ParsedSession \<Rightarrow> bool" where
  "timeStageV2 f session =
     (if truthyString (timeStart f) \<or> truthyString (timeEnd f) then
        (case startTime session of
           None \<Rightarrow> True
         | Some t \<Rightarrow>
             if t = [] then True
             else if truthyString (timeStart f) \<and> stringLess t (timeStart f) then False
             else if truthyString (timeEnd f) \<and> stringLess (timeEnd f) t then False
             else True)
      else True)"

definition getSeconds :: "runtime \<Rightarrow> string \<Rightarrow> jsnum" where
  "getSeconds rt dur =
     (let p = map (Number rt) (splitChar CHR '':'' dur)
      in if length p = 3 then
           jsAdd (jsAdd (jsMul (p ! 0) (Fin 3600)) (jsMul (p ! 1) (Fin 60))) (p ! 2)
         else if length p = 2 then jsAdd (jsMul (p ! 0) (Fin 60)) (p ! 1)
         else Fin 0)"

definition durationStageV2 :: "runtime \<Rightarrow> ActiveFilters \<Rightarrow> ParsedSession \<Rightarrow> error + bool" where
  "durationStageV2 rt f session =
     (if truthyString (minDuration f) \<or> truthyString (maxDuration f) then
        if type session \<noteq> AUDIO \<or> \<not> truthyField (duration session) then Inr False
        else
          bindE (callMethod (duration session) (getSeconds rt)) (\<lambda>sec.
            if truthyString (minDuration f) \<and> jsLess sec (parseInt (minDuration f) None)
            then Inr False
            else if truthyString (maxDuration f) \<and> jsLess (parseInt (maxDuration f) None) sec
            then Inr False
            else Inr True)
      else Inr True)"

definition legalStageV2 ::
  "LegalReference list \<Rightarrow> string list \<Rightarrow> ParsedSession \<Rightarrow> error + bool" where
  "legalStageV2 legalReferences selected session =
     (if length selected > 0 then
        if legalReferenceIds session = None then Inr False
        else
          bindE (callMethod (legalReferenceIds session)
                   (map (\<lambda>i. map_option label (find (\<lambda>r. refId r = i) legalReferences))))
            (\<lambda>sessionLabels. Inr (\<exists>l \<in> set selected. Some l \<in> set sessionLabels))
      else Inr True)"

definition sessionPredicateV2 ::
  "runtime \<Rightarrow> AliasMap \<Rightarrow> LegalReference list \<Rightarrow> string list \<Rightarrow> SavedTag list \<Rightarrow> bool \<Rightarrow>
   string set \<Rightarrow> ActiveFilters \<Rightarrow> ParsedSession \<Rightarrow> error + bool" where
  "sessionPredicateV2 rt aliasMap legalReferences activeTagIds savedTags viewOnlySelected
     manualSelection f session =
     andThen (Inr (tagStageV2 activeTagIds savedTags session))
    (andThen (Inr (selectionStageV2 viewOnlySelected manualSelection session))
    (andThen (Inr (sessionIdStageV2 f session))
    (andThen (Inr (contentStageV2 f session))
    (andThen (Inr (dateStageV2 rt f session))
    (andThen (Inr (timeStageV2 f session))
    (andThen (durationStageV2 rt f session)
    (andThen (Inr (memberStage (sourceNumbers f) (resolve aliasMap (sourceNumber session))))
    (andThen (Inr (memberStage (destNumbers f) (resolve aliasMap (destinationNumber session))))
    (andThen (Inr (memberStage (sourceSpeakers f) (resolve aliasMap (sourceName session))))
    (andThen (Inr (memberStage (destSpeakers f) (resolve aliasMap (destinationName session))))
    (andThen (legalStageV2 legalReferences (legalArticle f) session)
    (andThen (legalStageV2 legalReferences (legalFact f) session)
             (legalStageV2 legalReferences (legalTag f) session)))))))))))))"

definition filteredSessionsV2 ::
  "runtime \<Rightarrow> AliasMap \<Rightarrow> LegalReference list \<Rightarrow> ParsedSession list \<Rightarrow> ActiveFilters \<Rightarrow>
   string list \<Rightarrow> SavedTag list \<Rightarrow> bool \<Rightarrow> string set \<Rightarrow> error + ParsedSession list" where
  "filteredSessionsV2 rt aliasMap legalReferences sessions activeFilters activeTagIds savedTags
     viewOnlySelected manualSelection =
     filterE (sessionPredicateV2 rt aliasMap legalReferences activeTagIds savedTags
                viewOnlySelected manualSelection activeFilters) sessions"

subsection \<open>Sorting\<close>

datatype SortOption =
  date_desc | date_asc | duration_desc | source_num | dest_num | source_name | dest_name

text \<open>\<open>x || ''\<close> on an optional string.\<close>

definition orEmpty :: "string option \<Rightarrow> string" where
  "orEmpty v = (case v of None \<Rightarrow> [] | Some s \<Rightarrow> s)"

text \<open>
  \<open>x || y\<close> and \<open>x || ''\<close> on resolved values, and \<open>receiver.localeCompare(argument)\<close>: a
  value inherited from \<open>Object.prototype\<close> has no method \<open>localeCompare\<close>, so the call
  throws a \<open>TypeError\<close> when it is the receiver; as the argument it is converted to a
  string.
\<close>

definition orElse :: "jsvalue option \<Rightarrow> jsvalue option \<Rightarrow> jsvalue option" where
  "orElse v w = (if truthyValue v then v else w)"

definition orEmptyValue :: "jsvalue option \<Rightarrow> jsvalue" where
  "orEmptyValue v = (if truthyValue v then (case v of None \<Rightarrow> Str [] | Some x \<Rightarrow> x) else Str [])"

definition toStringValue :: "runtime \<Rightarrow> jsvalue \<Rightarrow> string" where
  "toStringValue rt v = (case v of Str s \<Rightarrow> s | Inherited key \<Rightarrow> stringOfInherited rt key)"

definition callLocaleCompare :: "runtime \<Rightarrow> jsvalue \<Rightarrow> jsvalue \<Rightarrow> error + jsnum" where
  "callLocaleCompare rt receiver argument =
     (case receiver of
        Str s \<Rightarrow> Inr (localeCompare rt s (toStringValue rt argument))
      | Inherited key \<Rightarrow> Inl TypeError)"

text \<open>\<open>parseDate(x)?.getTime() || 0\<close>.\<close>

definition timeOrZero :: "jsnum option \<Rightarrow> jsnum" where
  "timeOrZero d = (case d of None \<Rightarrow> Fin 0 | Some t \<Rightarrow> orZero t)"

definition compareSessions ::
  "runtime \<Rightarrow> AliasMap \<Rightarrow> SortOption \<Rightarrow> ParsedSession \<Rightarrow> ParsedSession \<Rightarrow> error + jsnum" where
  "compareSessions rt aliasMap sortOption a b =
     (case sortOption of
        date_desc \<Rightarrow>
          Inr (jsSub (timeOrZero (parseDate rt (date b))) (timeOrZero (parseDate rt (date a))))
      | date_asc \<Rightarrow>
          Inr (jsSub (timeOrZero (parseDate rt (date a))) (timeOrZero (parseDate rt (date b))))
      | duration_desc \<Rightarrow>
          bindE (parseDurationToSeconds rt (duration b)) (\<lambda>db.
            bindE (parseDurationToSeconds rt (duration a)) (\<lambda>da. Inr (jsSub db da)))
      | source_num \<Rightarrow>
          callLocaleCompare rt (orEmptyValue (resolve aliasMap (sourceNumber a)))
            (orEmptyValue (resolve aliasMap (sourceNumber b)))
      | dest_num \<Rightarrow>
          callLocaleCompare rt (orEmptyValue (resolve aliasMap (destinationNumber a)))
            (orEmptyValue (resolve aliasMap (destinationNumber b)))
      | source_name \<Rightarrow>
          callLocaleCompare rt
            (orEmptyValue (orElse (resolve aliasMap (sourceName a)) (resolve aliasMap (sourceNumber a))))
            (orEmptyValue (orElse (resolve aliasMap (sourceName b)) (resolve aliasMap (sourceNumber b))))
      | dest_name \<Rightarrow>
          callLocaleCompare rt
            (orEmptyValue (orElse (resolve aliasMap (destinationName a))
                             (resolve aliasMap (destinationNumber a))))
            (orEmptyValue (orElse (resolve aliasMap (destinationName b))
                             (resolve aliasMap (destinationNumber b)))))"

text \<open>
  The comparator of the second component. Its local \<open>parseDate\<close> reads the start time
  of \<open>a\<close>, the first argument of the comparator, whichever date string it is given;
  a missing piece of the date prints as \<open>undefined\<close> in the template.
\<close>

definition datePiece :: "string list \<Rightarrow> nat \<Rightarrow> string" where
  "datePiece p i = (if i < length p then p ! i else ''undefined'')"

definition parseDateV2 :: "runtime \<Rightarrow> ParsedSession \<Rightarrow> string \<Rightarrow> jsnum" where
  "parseDateV2 rt a d =
     (let p = splitChar CHR ''.'' d
      in dateOfString rt
           (datePiece p 2 @ ''-'' @ datePiece p 1 @ ''-'' @ datePiece p 0 @ ''T'' @
            (if truthyField (startTime a) then orEmpty (startTime a) else ''00:00:00'')))"

definition compareSessionsV2 ::
  "runtime \<Rightarrow> AliasMap \<Rightarrow> SortOption \<Rightarrow> ParsedSession \<Rightarrow> ParsedSession \<Rightarrow> error + jsnum" where
  "compareSessionsV2 rt aliasMap sortOption a b =
     (if sortOption = date_desc \<or> sortOption = date_asc then
        (let dateA = parseDateV2 rt a (date a); dateB = parseDateV2 rt a (date b)
         in Inr (if sortOption = date_desc then jsSub dateB dateA else jsSub dateA dateB))
      else if sortOption = duration_desc then
        Inr (localeCompare rt (orEmpty (duration b)) (orEmpty (duration a)))
      else if sortOption = source_num then
        callLocaleCompare rt (orEmptyValue (resolve aliasMap (sourceNumber a)))
          (orEmptyValue (resolve aliasMap (sourceNumber b)))
      else if sortOption = dest_num then
        callLocaleCompare rt (orEmptyValue (resolve aliasMap (destinationNumber a)))
          (orEmptyValue (resolve aliasMap (destinationNumber b)))
      else if sortOption = source_name then
        callLocaleCompare rt (orEmptyValue (resolve aliasMap (sourceName a)))
          (orEmptyValue (resolve aliasMap (sourceName b)))
      else if sortOption = dest_name then
        callLocaleCompare rt (orEmptyValue (resolve aliasMap (destinationName a)))
          (orEmptyValue (resolve aliasMap (destinationName b)))
      else Inr (Fin 0))"

text \<open>
  \<open>Array.prototype.sort\<close> is stable: an element moves in front of another only when
  the comparator says so with a positive number for the pair in their current order;
  zero and \<open>NaN\<close> leave the two in place. For a consistent comparator this fixes the
  result, which insertion from the left computes. For a comparator that is not
  consistent (one that answers \<open>NaN\<close> for some pairs and a number for others, say)
  the language leaves the order of the result, and which pairs are compared, to the
  implementation; insertion from the left is then one possible behaviour, and the
  properties below use the sort only where every implementation agrees: on two elements
  that compare as equal both ways, and on elements whose every comparison throws. An
  exception thrown by the comparator ends the sort and is thrown by \<open>sort\<close>.
\<close>

fun insertE :: "('a \<Rightarrow> 'a \<Rightarrow> error + jsnum) \<Rightarrow> 'a \<Rightarrow> 'a list \<Rightarrow> error + 'a list" where
  "insertE cmp x [] = Inr [x]"
| "insertE cmp x (y # ys) =
     bindE (cmp y x) (\<lambda>v.
       if jsLess (Fin 0) v then Inr (x # y # ys)
       else bindE (insertE cmp x ys) (\<lambda>rest. Inr (y # rest)))"

fun sortE :: "('a \<Rightarrow> 'a \<Rightarrow> error + jsnum) \<Rightarrow> 'a list \<Rightarrow> 'a list \<Rightarrow> error + 'a list" where
  "sortE cmp acc [] = Inr acc"
| "sortE cmp acc (x # xs) = bindE (insertE cmp x acc) (\<lambda>acc'. sortE cmp acc' xs)"

definition sortedSessions ::
  "runtime \<Rightarrow> AliasMap \<Rightarrow> SortOption \<Rightarrow> ParsedSession list \<Rightarrow> error + ParsedSession list" where
  "sortedSessions rt aliasMap sortOption filtered =
     sortE (compareSessions rt aliasMap sortOption) [] filtered"

definition sortedSessionsV2 ::
  "runtime \<Rightarrow> AliasMap \<Rightarrow> SortOption \<Rightarrow> ParsedSession list \<Rightarrow> error + ParsedSession list" where
  "sortedSessionsV2 rt aliasMap sortOption filtered =
     sortE (compareSessionsV2 rt aliasMap sortOption) [] filtered"

section \<open>Notions used to state the properties\<close>

text \<open>The top of a stack kept as an array: its last element.\<close>

definition stackTop :: "bool list \<Rightarrow> bool" where
  "stackTop st = (if st = [] then False else last st)"

text \<open>
  A plain term: a non-empty run of term characters that does not begin with an
  operator, so that the tokenizer reads it as one \<open>TERM\<close> token with itself as value.
\<close>

definition plainTerm :: "string \<Rightarrow> bool" where
  "plainTerm t = (t \<noteq> [] \<and> (\<forall>c \<in> set t. isTermChar c) \<and> operatorAt operators t = None)"

text \<open>A separator: a character at which no operator word and no bare word goes on.\<close>

definition separator :: "char \<Rightarrow> bool" where
  "separator sep = (\<not> isTermChar sep \<and> (\<forall>w \<in> set operators. upperChar sep \<notin> set w))"

text \<open>
  The Levenshtein edit distance, with unit costs for insertion, deletion and
  substitution: \<open>edits xs ys n\<close> says that \<open>xs\<close> is turned into \<open>ys\<close> by an
  alignment with \<open>n\<close> such operations, and \<open>levenshtein\<close> is the classic recurrence,
  which gives the least such \<open>n\<close>.
\<close>

inductive edits :: "'a list \<Rightarrow> 'a list \<Rightarrow> nat \<Rightarrow> bool" where
  finish: "edits [] [] 0"
| keep: "edits xs ys n \<Longrightarrow> edits (x # xs) (x # ys) n"
| substitute: "edits xs ys n \<Longrightarrow> edits (x # xs) (y # ys) (Suc n)"
| delete: "edits xs ys n \<Longrightarrow> edits (x # xs) ys (Suc n)"
| insert: "edits xs ys n \<Longrightarrow> edits xs (y # ys) (Suc n)"

fun levenshtein :: "'a list \<Rightarrow> 'a list \<Rightarrow> nat" where
  "levenshtein [] ys = length ys"
| "levenshtein (x # xs) [] = Suc (length xs)"
| "levenshtein (x # xs) (y # ys) =
     min (min (levenshtein xs (y # ys) + 1) (levenshtein (x # xs) ys + 1))
         (levenshtein xs ys + (if x = y then 0 else 1))"

text \<open>
  Invariants of the matrix loops: the shape of the matrix, and which cells already
  hold the distance between the corresponding prefixes.
\<close>

definition dims :: "nat \<Rightarrow> nat \<Rightarrow> matrix \<Rightarrow> bool" where
  "dims h w m = (length m = h \<and> (\<forall>j < h. length (m ! j) = w))"

text \<open>The distance between the first i characters of a and the first j of b.\<close>

definition prefixDistance :: "string \<Rightarrow> string \<Rightarrow> nat \<Rightarrow> nat \<Rightarrow> nat" where
  "prefixDistance a b i j = levenshtein (rev (take i a)) (rev (take j b))"

definition rowZeroSet :: "string \<Rightarrow> string \<Rightarrow> nat \<Rightarrow> matrix \<Rightarrow> bool" where
  "rowZeroSet a b i m =
     (dims (length b + 1) (length a + 1) m \<and> (\<forall>i' < i. cell m 0 i' = i'))"

definition columnZeroSet :: "string \<Rightarrow> string \<Rightarrow> nat \<Rightarrow> matrix \<Rightarrow> bool" where
  "columnZeroSet a b j m =
     (dims (length b + 1) (length a + 1) m \<and> (\<forall>i < length a + 1. cell m 0 i = i) \<and>
      (\<forall>j' < j. cell m j' 0 = j'))"

definition rowsFilled :: "string \<Rightarrow> string \<Rightarrow> nat \<Rightarrow> matrix \<Rightarrow> bool" where
  "rowsFilled a b j m =
     (dims (length b + 1) (length a + 1) m \<and> (\<forall>j' < length b + 1. cell m j' 0 = j') \<and>
      (\<forall>j' < j. \<forall>i < length a + 1. cell m j' i = prefixDistance a b i j'))"

definition cellsFilled :: "string \<Rightarrow> string \<Rightarrow> nat \<Rightarrow> nat \<Rightarrow> matrix \<Rightarrow> bool" where
  "cellsFilled a b j i m =
     (rowsFilled a b j m \<and> (\<forall>i' < i. cell m j i' = prefixDistance a b i' j))"

subsection \<open>Example data\<close>

text \<open>
  A runtime for the examples: \<open>Number\<close> as on non-empty strings of decimal digits,
  every date invalid, every pair of strings equal in the collation. The theorems
  hold for every runtime.
\<close>

definition exampleRuntime :: runtime where
  "exampleRuntime =
     \<lparr>Number = (\<lambda>s. parseInt s (Some 10)), dateOfString = (\<lambda>s. NaN),
      dateOfFields = (\<lambda>y m d. NaN), localeCompare = (\<lambda>x y. Fin 0),
      stringOfInherited = (\<lambda>key. ''function () { [native code] }'')\<rparr>"

definition exampleFilters :: ActiveFilters where
  "exampleFilters =
     \<lparr>sessionF = [], contentF = [], dateStart = [], dateEnd = [], timeStart = [], timeEnd = [],
      sourceNumbers = [], destNumbers = [], sourceSpeakers = [], destSpeakers = [],
      minDuration = [], maxDuration = [], legalArticle = [], legalFact = [], legalTag = []\<rparr>"

definition exampleSession :: ParsedSession where
  "exampleSession =
     \<lparr>target = ''9100'', sourceNumber = None, sourceName = None, destinationNumber = None,
      destinationName = None, sessionId = ''S1'', date = ''01.01.2024'', startTime = None,
      endTime = None, duration = None, type = AUDIO, content = ''Maria: bom dia'',
      legalReferenceIds = None\<rparr>"

definition smsSession :: ParsedSession where
  "smsSession = exampleSession\<lparr>sessionId := ''S2'', type := SMS, destinationNumber := Some ''9100''\<rparr>"

definition inheritedSession :: ParsedSession where
  "inheritedSession = exampleSession\<lparr>sessionId := ''S5'', sourceNumber := Some ''constructor''\<rparr>"

definition lateSession :: ParsedSession where
  "lateSession = exampleSession\<lparr>sessionId := ''S3'', startTime := Some ''10:00:00''\<rparr>"

definition earlySession :: ParsedSession where
  "earlySession = exampleSession\<lparr>sessionId := ''S4'', startTime := Some ''09:00:00''\<rparr>"

section \<open>Properties of the query evaluator\<close>

subsection \<open>Facts about the tokenizer\<close>

lemma white_not_term: "isWhiteSpace c \<Longrightarrow> \<not> isTermChar c"
  by (simp add: isTermChar_def)

lemma term_not_quote: "isTermChar c \<Longrightarrow> c \<noteq> quote"
  by (simp add: isTermChar_def)

lemma upper_letter_term: "\<forall>c. upperChar c \<in> set ''ANDORT'' \<longrightarrow> isTermChar c"
  by code_simp

lemma nonterm_no_operator_start: "\<forall>c. isWhiteSpace c \<longrightarrow> upperChar c \<notin> set ''()OAN+-'' \<and> c \<noteq> quote"
  by code_simp

lemma trim_Nil_iff: "trim s = [] \<longleftrightarrow> (\<forall>c \<in> set s. isWhiteSpace c)"
proof -
  have "set (dropWhile isWhiteSpace s) \<subseteq> set s"
    by (simp add: set_dropWhileD subsetI)
  moreover have "\<And>c. c \<in> set s \<Longrightarrow> \<not> isWhiteSpace c \<Longrightarrow> c \<in> set (dropWhile isWhiteSpace s)"
    by (metis UnE set_append set_takeWhileD takeWhile_dropWhile_id)
  ultimately show ?thesis
    by (auto simp: trim_def dropWhile_eq_Nil_conv)
qed

lemma exec_white: "isWhiteSpace c \<Longrightarrow> exec (c # rest) = exec rest"
proof -
  assume w: "isWhiteSpace c"
  with nonterm_no_operator_start have u: "upperChar c \<notin> set ''()OAN+-''" and q: "c \<noteq> quote"
    by blast+
  have "quotedPhrase (c # rest) = None"
    using q by (simp add: quotedPhrase_def)
  moreover have "operatorAt operators (c # rest) = None"
    using u by (simp add: operators_def)
  moreover have "bareWord (c # rest) = None"
    using w by (simp add: bareWord_def white_not_term)
  ultimately show ?thesis
    by (simp add: matchAt_def)
qed

lemma tokenize_white: "isWhiteSpace c \<Longrightarrow> tokenize (c # rest) = tokenize rest"
  by (subst tokenize.simps, subst (2) tokenize.simps) (simp only: exec_white)

lemma space_white: "isWhiteSpace (CHR '' '')"
  by code_simp

lemma tokenize_space: "tokenize (CHR '' '' # rest) = tokenize rest"
  by (simp add: tokenize_white space_white)

lemma upperChar_ops:
  "upperChar (CHR ''A'') = CHR ''A''" "upperChar (CHR ''N'') = CHR ''N''"
  "upperChar (CHR ''D'') = CHR ''D''" "upperChar (CHR ''O'') = CHR ''O''"
  "upperChar (CHR ''R'') = CHR ''R''" "upperChar (CHR ''T'') = CHR ''T''"
  "upperChar (CHR ''('') = CHR ''(''" "upperChar (CHR '')'') = CHR '')''"
  "upperChar (CHR ''+'') = CHR ''+''" "upperChar (CHR ''-'') = CHR ''-''"
  by code_simp+

lemma tokenize_match:
  "matchAt s = Some (m, rest) \<Longrightarrow> tokenize s = tokenOf m @ tokenize rest"
proof (cases s)
  case Nil
  assume "matchAt s = Some (m, rest)"
  with Nil show ?thesis
    by (simp add: matchAt_def quotedPhrase_def operators_def bareWord_def)
next
  case (Cons c cs)
  assume "matchAt s = Some (m, rest)"
  with Cons show ?thesis
    by (subst tokenize.simps) simp
qed

lemma tokenize_AND: "tokenize (''AND'' @ rest) = Op ''AND'' # tokenize rest"
proof -
  have "matchAt (''AND'' @ rest) = Some (\<lparr>group1 = None, group2 = Some ''AND'', group3 = None\<rparr>, rest)"
    by (simp add: matchAt_def quotedPhrase_def quote_def operators_def upperChar_ops)
  from tokenize_match [OF this] show ?thesis
    by (simp add: tokenOf_def truthyGroup_def toUpperCase_def upperChar_ops)
qed

lemma tokenize_OR: "tokenize (''OR'' @ rest) = Op ''OR'' # tokenize rest"
proof -
  have "matchAt (''OR'' @ rest) = Some (\<lparr>group1 = None, group2 = Some ''OR'', group3 = None\<rparr>, rest)"
    by (simp add: matchAt_def quotedPhrase_def quote_def operators_def upperChar_ops)
  from tokenize_match [OF this] show ?thesis
    by (simp add: tokenOf_def truthyGroup_def toUpperCase_def upperChar_ops)
qed

lemma tokenize_NOT: "tokenize (''NOT'' @ rest) = Op ''NOT'' # tokenize rest"
proof -
  have "matchAt (''NOT'' @ rest) = Some (\<lparr>group1 = None, group2 = Some ''NOT'', group3 = None\<rparr>, rest)"
    by (simp add: matchAt_def quotedPhrase_def quote_def operators_def upperChar_ops)
  from tokenize_match [OF this] show ?thesis
    by (simp add: tokenOf_def truthyGroup_def toUpperCase_def upperChar_ops)
qed

lemma tokenize_open: "tokenize (CHR ''('' # rest) = Op ''('' # tokenize rest"
proof -
  have "matchAt (CHR ''('' # rest) = Some (\<lparr>group1 = None, group2 = Some ''('', group3 = None\<rparr>, rest)"
    by (simp add: matchAt_def quotedPhrase_def quote_def operators_def upperChar_ops)
  from tokenize_match [OF this] show ?thesis
    by (simp add: tokenOf_def truthyGroup_def toUpperCase_def upperChar_ops)
qed

lemma tokenize_close: "tokenize (CHR '')'' # rest) = Op '')'' # tokenize rest"
proof -
  have "matchAt (CHR '')'' # rest) = Some (\<lparr>group1 = None, group2 = Some '')'', group3 = None\<rparr>, rest)"
    by (simp add: matchAt_def quotedPhrase_def quote_def operators_def upperChar_ops)
  from tokenize_match [OF this] show ?thesis
    by (simp add: tokenOf_def truthyGroup_def toUpperCase_def upperChar_ops)
qed

lemma operatorWord_append:
  "operatorWord p (t @ rest) = Some r \<Longrightarrow> operatorWord p t = None \<Longrightarrow>
   rest \<noteq> [] \<and> upperChar (hd rest) \<in> set p"
proof (induction p t rule: operatorWord.induct)
  case (1 s)
  then show ?case by simp
next
  case (2 p ps)
  then show ?case
    by (cases rest) (auto split: if_splits)
next
  case (3 p ps c cs)
  then show ?case
    by (auto split: if_splits)
qed

lemma operatorAt_append:
  assumes "operatorAt ps t = None" and "rest = [] \<or> \<not> isTermChar (hd rest)"
    and "\<forall>p \<in> set ps. \<forall>x \<in> set p. \<forall>c. upperChar c = x \<longrightarrow> isTermChar c \<or> length p = 1"
    and "t \<noteq> []"
  shows "operatorAt ps (t @ rest) = None"
  using assms
proof (induction ps)
  case Nil
  then show ?case by simp
next
  case (Cons p ps)
  from Cons.prems(1) have none: "operatorWord p t = None" and tl: "operatorAt ps t = None"
    by (auto split: option.splits)
  have "operatorWord p (t @ rest) = None"
  proof (rule ccontr)
    assume "operatorWord p (t @ rest) \<noteq> None"
    then obtain r where r: "operatorWord p (t @ rest) = Some r" by auto
    from operatorWord_append [OF r none] have ne: "rest \<noteq> []" and u: "upperChar (hd rest) \<in> set p"
      by auto
    from Cons.prems(3) u have "isTermChar (hd rest) \<or> length p = 1" by auto
    with Cons.prems(2) ne have l: "length p = 1" by auto
    then obtain x where p: "p = [x]" by (cases p) auto
    from Cons.prems(4) obtain c cs where t: "t = c # cs" by (cases t) auto
    from r none p t show False by (auto split: if_splits)
  qed
  with Cons tl show ?case by simp
qed

lemma operators_letters:
  "\<forall>p \<in> set operators. \<forall>x \<in> set p. \<forall>c. upperChar c = x \<longrightarrow> isTermChar c \<or> length p = 1"
  using upper_letter_term by (auto simp: operators_def)

lemma tokenize_plainTerm:
  assumes "plainTerm t" and "rest = [] \<or> \<not> isTermChar (hd rest)"
  shows "tokenize (t @ rest) = Term t # tokenize rest"
proof -
  from assms(1) obtain c cs where t: "t = c # cs" and c: "isTermChar c"
    by (cases t) (auto simp: plainTerm_def)
  from assms(1) have all: "\<forall>x \<in> set t. isTermChar x" and no: "operatorAt operators t = None"
    and ne: "t \<noteq> []"
    by (auto simp: plainTerm_def)
  have q: "quotedPhrase (t @ rest) = None"
    using t c term_not_quote by (simp add: quotedPhrase_def)
  have o: "operatorAt operators (t @ rest) = None"
    using operatorAt_append [OF no assms(2) operators_letters ne] .
  have tw: "takeWhile isTermChar (t @ rest) = t" and dw: "dropWhile isTermChar (t @ rest) = rest"
    using all assms(2) by (cases rest; simp)+
  have b: "bareWord (t @ rest) = Some (t, rest)"
    using ne by (simp add: bareWord_def tw dw)
  have "matchAt (t @ rest) = Some (\<lparr>group1 = None, group2 = None, group3 = Some t\<rparr>, rest)"
    by (simp add: matchAt_def q o b)
  from tokenize_match [OF this] ne show ?thesis
    by (simp add: tokenOf_def truthyGroup_def)
qed

subsection \<open>The matrix computes the edit distance\<close>

lemma levenshtein_Nil2 [simp]: "levenshtein xs [] = length xs"
  by (cases xs) simp_all

lemma edits_deletes: "edits xs [] (length xs)"
  by (induction xs) (auto intro: edits.intros)

lemma edits_inserts: "edits [] ys (length ys)"
  by (induction ys) (auto intro: edits.intros)

lemma edits_levenshtein: "edits xs ys (levenshtein xs ys)"
proof (induction xs ys rule: levenshtein.induct)
  case (1 ys)
  then show ?case by (simp add: edits_inserts)
next
  case (2 x xs)
  then show ?case using edits_deletes [of "x # xs"] by simp
next
  case (3 x xs y ys)
  let ?d = "levenshtein xs (y # ys) + 1" and ?i = "levenshtein (x # xs) ys + 1"
  let ?s = "levenshtein xs ys + (if x = y then 0 else 1)"
  have d: "edits (x # xs) (y # ys) ?d"
    using "3.IH"(1) by (simp add: edits.delete)
  have i: "edits (x # xs) (y # ys) ?i"
    using "3.IH"(2) by (simp add: edits.insert)
  have s: "edits (x # xs) (y # ys) ?s"
    using "3.IH"(3) by (auto intro: edits.keep edits.substitute)
  have "levenshtein (x # xs) (y # ys) = ?d \<or> levenshtein (x # xs) (y # ys) = ?i \<or> levenshtein (x # xs) (y # ys) = ?s"
    by (simp add: min_def)
  with d i s show ?case by metis
qed

lemma levenshtein_delete: "levenshtein (x # xs) ys \<le> Suc (levenshtein xs ys)"
  by (cases ys) simp_all

lemma levenshtein_insert: "levenshtein xs (y # ys) \<le> Suc (levenshtein xs ys)"
  by (cases xs) simp_all

lemma levenshtein_least: "edits xs ys n \<Longrightarrow> levenshtein xs ys \<le> n"
proof (induction rule: edits.induct)
  case finish
  then show ?case by simp
next
  case (keep xs ys n x)
  then show ?case by (simp add: min.coboundedI2)
next
  case (substitute xs ys n x y)
  then show ?case by (auto simp: min_def)
next
  case (delete xs ys n x)
  then show ?case using levenshtein_delete [of x xs ys] by simp
next
  case (insert xs ys n y)
  then show ?case using levenshtein_insert [of xs y ys] by simp
qed

lemma edits_snoc_keep: "edits xs ys n \<Longrightarrow> edits (xs @ [x]) (ys @ [x]) n"
  by (induction rule: edits.induct) (auto intro: edits.intros)

lemma edits_snoc_substitute: "edits xs ys n \<Longrightarrow> edits (xs @ [x]) (ys @ [y]) (Suc n)"
  by (induction rule: edits.induct) (auto intro: edits.intros)

lemma edits_snoc_delete: "edits xs ys n \<Longrightarrow> edits (xs @ [x]) ys (Suc n)"
  by (induction rule: edits.induct) (auto intro: edits.intros)

lemma edits_snoc_insert: "edits xs ys n \<Longrightarrow> edits xs (ys @ [y]) (Suc n)"
  by (induction rule: edits.induct) (auto intro: edits.intros)

lemma edits_rev: "edits xs ys n \<Longrightarrow> edits (rev xs) (rev ys) n"
  by (induction rule: edits.induct)
    (auto intro: edits.finish edits_snoc_keep edits_snoc_substitute edits_snoc_delete
      edits_snoc_insert)

lemma levenshtein_rev: "levenshtein (rev xs) (rev ys) = levenshtein xs ys"
proof (rule antisym)
  show "levenshtein (rev xs) (rev ys) \<le> levenshtein xs ys"
    using levenshtein_least [OF edits_rev [OF edits_levenshtein [of xs ys]]] .
  show "levenshtein xs ys \<le> levenshtein (rev xs) (rev ys)"
    using levenshtein_least [OF edits_rev [OF edits_levenshtein [of "rev xs" "rev ys"]]] by simp
qed

lemma foldl_upt_invariant:
  assumes "P lo m" and "lo \<le> hi"
    and "\<And>i m. lo \<le> i \<Longrightarrow> i < hi \<Longrightarrow> P i m \<Longrightarrow> P (Suc i) (f m i)"
  shows "P hi (foldl f m [lo..<hi])"
  using assms(2,3)
proof (induction hi)
  case 0
  with assms(1) show ?case by simp
next
  case (Suc hi)
  show ?case
  proof (cases "lo = Suc hi")
    case True
    with assms(1) show ?thesis by simp
  next
    case False
    with Suc.prems(1) have le: "lo \<le> hi" by simp
    have "P hi (foldl f m [lo..<hi])"
      using Suc.IH [OF le] Suc.prems(2) by simp
    with le Suc.prems(2) [of hi] show ?thesis by simp
  qed
qed

lemma dims_setCell: "dims h w m \<Longrightarrow> dims h w (setCell m j i v)"
proof -
  assume d: "dims h w m"
  have "length ((m[j := (m ! j)[i := v]]) ! k) = w" if "k < h" for k
  proof (cases "k = j")
    case True
    with d that show ?thesis by (simp add: dims_def)
  next
    case False
    with d that show ?thesis by (simp add: dims_def)
  qed
  with d show ?thesis by (simp add: dims_def setCell_def)
qed

lemma cell_setCell:
  "dims h w m \<Longrightarrow> j < h \<Longrightarrow> i < w \<Longrightarrow>
   cell (setCell m j i v) j' i' = (if j' = j \<and> i' = i then v else cell m j' i')"
  by (auto simp: dims_def setCell_def cell_def nth_list_update)

lemma dims_replicate: "dims h w (replicate h (replicate w 0))"
  by (simp add: dims_def)

lemma prefixDistance_0_left: "j \<le> length b \<Longrightarrow> prefixDistance a b 0 j = j"
  by (simp add: prefixDistance_def)

lemma prefixDistance_0_right: "i \<le> length a \<Longrightarrow> prefixDistance a b i 0 = i"
  by (simp add: prefixDistance_def)

lemma prefixDistance_Suc:
  assumes "i < length a" "j < length b"
  shows "prefixDistance a b (Suc i) (Suc j) =
     min (min (prefixDistance a b i (Suc j) + 1) (prefixDistance a b (Suc i) j + 1))
         (prefixDistance a b i j + (if a ! i = b ! j then 0 else 1))"
  using assms by (simp add: prefixDistance_def take_Suc_conv_app_nth)

lemma prefixDistance_full: "prefixDistance a b (length a) (length b) = levenshtein a b"
  by (simp add: prefixDistance_def levenshtein_rev)

lemma rowZero_phase:
  "rowZeroSet a b (length a + 1)
     (foldl (\<lambda>m i. setCell m 0 i i) (replicate (length b + 1) (replicate (length a + 1) 0))
        [0..<length a + 1])"
proof (rule foldl_upt_invariant)
  show "rowZeroSet a b 0 (replicate (length b + 1) (replicate (length a + 1) 0))"
    using dims_replicate [of "length b + 1" "length a + 1"] by (simp add: rowZeroSet_def)
  show "0 \<le> length a + 1" by simp
  fix i m
  assume i: "i < length a + 1" and p: "rowZeroSet a b i m"
  from p have d: "dims (length b + 1) (length a + 1) m"
    by (simp add: rowZeroSet_def)
  have "cell (setCell m 0 i i) 0 i' = i'" if "i' < Suc i" for i'
    using that p i cell_setCell [OF d, of 0 i i 0 i']
    by (auto simp: rowZeroSet_def)
  with dims_setCell [OF d] show "rowZeroSet a b (Suc i) (setCell m 0 i i)"
    by (simp add: rowZeroSet_def)
qed

lemma columnZero_phase:
  assumes "rowZeroSet a b (length a + 1) m0"
  shows "columnZeroSet a b (length b + 1) (foldl (\<lambda>m j. setCell m j 0 j) m0 [0..<length b + 1])"
proof (rule foldl_upt_invariant)
  show "columnZeroSet a b 0 m0"
    using assms by (simp add: rowZeroSet_def columnZeroSet_def)
  show "0 \<le> length b + 1" by simp
  fix j m
  assume j: "j < length b + 1" and p: "columnZeroSet a b j m"
  from p have d: "dims (length b + 1) (length a + 1) m"
    by (simp add: columnZeroSet_def)
  have r: "cell (setCell m j 0 j) 0 i = i" if "i < length a + 1" for i
    using that p j cell_setCell [OF d, of j 0 j 0 i]
    by (auto simp: columnZeroSet_def)
  have c: "cell (setCell m j 0 j) j' 0 = j'" if "j' < Suc j" for j'
    using that p j cell_setCell [OF d, of j 0 j j' 0]
    by (auto simp: columnZeroSet_def)
  from r c dims_setCell [OF d] show "columnZeroSet a b (Suc j) (setCell m j 0 j)"
    by (simp add: columnZeroSet_def)
qed

lemma fillCell_step:
  assumes "1 \<le> j" "j < length b + 1" "1 \<le> i" "i < length a + 1" "cellsFilled a b j i m"
  shows "cellsFilled a b j (Suc i) (fillCell a b j m i)"
proof -
  from assms(5) have d: "dims (length b + 1) (length a + 1) m"
    and c0: "\<forall>j' < length b + 1. cell m j' 0 = j'"
    and rows: "\<forall>j' < j. \<forall>i < length a + 1. cell m j' i = prefixDistance a b i j'"
    and cells: "\<forall>i' < i. cell m j i' = prefixDistance a b i' j"
    by (auto simp: cellsFilled_def rowsFilled_def)
  from assms(1,3) obtain i0 j0 where i0: "i = Suc i0" and j0: "j = Suc j0"
    by (metis One_nat_def Suc_le_D)
  define v where "v = min (min (cell m (Suc j0) i0 + 1) (cell m j0 (Suc i0) + 1))
     (cell m j0 i0 + (if a ! i0 = b ! j0 then 0 else 1))"
  have f: "fillCell a b j m i = setCell m j i v"
    by (simp add: fillCell_def v_def Let_def i0 j0)
  have 1: "cell m (Suc j0) i0 = prefixDistance a b i0 (Suc j0)"
    using cells i0 j0 by simp
  have 2: "cell m j0 (Suc i0) = prefixDistance a b (Suc i0) j0"
    using rows assms(4) i0 j0 by simp
  have 3: "cell m j0 i0 = prefixDistance a b i0 j0"
    using rows assms(4) i0 j0 by simp
  have "i0 < length a" "j0 < length b"
    using assms(2,4) i0 j0 by simp_all
  from prefixDistance_Suc [OF this] have "v = prefixDistance a b (Suc i0) (Suc j0)"
    unfolding v_def 1 2 3 by simp
  then have v: "v = prefixDistance a b i j"
    by (simp add: i0 j0)
  have get: "cell (setCell m j i x) j' i' = (if j' = j \<and> i' = i then x else cell m j' i')"
    for j' i' x
    using cell_setCell [OF d assms(2,4)] .
  have "\<forall>j' < length b + 1. cell (setCell m j i v) j' 0 = j'"
    using c0 assms(3) by (simp add: get)
  moreover have "\<forall>j' < j. \<forall>i' < length a + 1. cell (setCell m j i v) j' i' = prefixDistance a b i' j'"
    using rows by (simp add: get)
  moreover have "\<forall>i' < Suc i. cell (setCell m j i v) j i' = prefixDistance a b i' j"
    using cells v by (simp add: get less_Suc_eq)
  ultimately show ?thesis
    using dims_setCell [OF d] by (simp add: f cellsFilled_def rowsFilled_def)
qed

lemma fillRow_step:
  assumes "1 \<le> j" "j < length b + 1" "rowsFilled a b j m"
  shows "rowsFilled a b (Suc j) (fillRow a b m j)"
proof -
  have "cellsFilled a b j (length a + 1) (foldl (fillCell a b j) m [1..<length a + 1])"
  proof (rule foldl_upt_invariant)
    have "cell m j 0 = prefixDistance a b 0 j"
      using assms(2,3) by (simp add: rowsFilled_def prefixDistance_0_left)
    with assms(3) show "cellsFilled a b j 1 m"
      by (simp add: cellsFilled_def)
    show "1 \<le> length a + 1" by simp
    fix i m'
    assume "1 \<le> i" "i < length a + 1" "cellsFilled a b j i m'"
    with assms(1,2) show "cellsFilled a b j (Suc i) (fillCell a b j m' i)"
      by (rule fillCell_step)
  qed
  then show ?thesis
    by (auto simp: fillRow_def cellsFilled_def rowsFilled_def less_Suc_eq)
qed

lemma fill_phase:
  assumes "columnZeroSet a b (length b + 1) m0"
  shows "rowsFilled a b (length b + 1) (foldl (fillRow a b) m0 [1..<length b + 1])"
proof (rule foldl_upt_invariant)
  show "rowsFilled a b 1 m0"
    using assms by (simp add: columnZeroSet_def rowsFilled_def prefixDistance_0_right)
  show "1 \<le> length b + 1" by simp
  fix j m
  assume "1 \<le> j" "j < length b + 1" "rowsFilled a b j m"
  then show "rowsFilled a b (Suc j) (fillRow a b m j)"
    by (rule fillRow_step)
qed

lemma getLevenshteinDistance_levenshtein: "getLevenshteinDistance a b = levenshtein a b"
proof (cases "length a = 0 \<or> length b = 0")
  case True
  then show ?thesis by (auto simp: getLevenshteinDistance_def)
next
  case False
  let ?m = "foldl (fillRow a b)
     (foldl (\<lambda>m j. setCell m j 0 j)
        (foldl (\<lambda>m i. setCell m 0 i i) (replicate (length b + 1) (replicate (length a + 1) 0))
           [0..<length a + 1])
        [0..<length b + 1])
     [1..<length b + 1]"
  have "rowsFilled a b (length b + 1) ?m"
    by (intro fill_phase columnZero_phase rowZero_phase)
  then have "cell ?m (length b) (length a) = prefixDistance a b (length a) (length b)"
    by (simp add: rowsFilled_def)
  with False show ?thesis
    by (simp add: getLevenshteinDistance_def Let_def prefixDistance_full)
qed

lemma levenshtein_least_edits:
  "edits xs ys (levenshtein xs ys) \<and> (\<forall>n. edits xs ys n \<longrightarrow> levenshtein xs ys \<le> n)"
  using edits_levenshtein levenshtein_least by blast

subsection \<open>The claims about the query evaluator\<close>


text \<open>
  C9. For every content, a query that is not empty or white space only but from which
  the tokenizer extracts no token evaluates to false, while the empty or white space
  only query evaluates to true. The query made of two double quotes is such a query.
\<close>

theorem tokenless_query_false:
  "(trim query \<noteq> [] \<and> tokenize query = [] \<longrightarrow> \<not> evaluateBooleanQuery contentText query) \<and>
   (trim query = [] \<longrightarrow> evaluateBooleanQuery contentText query)"
  by (simp add: evaluateBooleanQuery_def toPostfix_def popAll.simps evalPostfix_def)

theorem tokenless_query_false_witness:
  "trim [quote, quote] \<noteq> [] \<and> tokenize [quote, quote] = [] \<and>
   \<not> evaluateBooleanQuery ''lisboa'' [quote, quote] \<and>
   trim ''  '' = [] \<and> evaluateBooleanQuery ''lisboa'' ''  ''"
proof -
  have a: "trim [quote, quote] \<noteq> [] \<and> tokenize [quote, quote] = []"
    by code_simp
  have b: "trim ''  '' = []"
    by code_simp
  from a b show ?thesis
    using tokenless_query_false [of "[quote, quote]" "''lisboa''"]
      tokenless_query_false [of "''  ''" "''lisboa''"]
    by simp
qed

text \<open>
  C1, as stated: the result is the top of the final evaluation stack, the value pushed
  last, or false when the stack is empty. It fails for the query \<open>a b\<close> on the content
  \<open>b\<close>: the final stack holds false (for \<open>a\<close>) below true (for \<open>b\<close>), and the result is
  false.
\<close>

theorem result_is_top_counterexample:
  "evalPostfix (normalizeText ''b'') (toPostfix (tokenize ''a b'')) = [False, True] \<and>
   evaluateBooleanQuery ''b'' ''a b'' \<noteq>
     stackTop (evalPostfix (normalizeText ''b'') (toPostfix (tokenize ''a b'')))"
  by code_simp

text \<open>
  C1, amended: for a query that is not empty or white space only, the result is the
  bottom of the final evaluation stack (index 0, the earliest pushed value still on
  the stack), or false when the stack is empty; it is the top when the stack holds at
  most one value.
\<close>

theorem result_is_bottom:
  assumes "trim query \<noteq> []"
  shows "evaluateBooleanQuery contentText query =
           (case evalPostfix (normalizeText contentText) (toPostfix (tokenize query)) of
              [] \<Rightarrow> False | v # vs \<Rightarrow> v) \<and>
         (length (evalPostfix (normalizeText contentText) (toPostfix (tokenize query))) \<le> 1 \<longrightarrow>
          evaluateBooleanQuery contentText query =
            stackTop (evalPostfix (normalizeText contentText) (toPostfix (tokenize query))))"
proof -
  let ?st = "evalPostfix (normalizeText contentText) (toPostfix (tokenize query))"
  from assms have 1: "evaluateBooleanQuery contentText query = (case ?st of [] \<Rightarrow> False | v # vs \<Rightarrow> v)"
    by (cases ?st) (simp_all add: evaluateBooleanQuery_def Let_def)
  have 2: "evaluateBooleanQuery contentText query = stackTop ?st" if "length ?st \<le> 1"
  proof -
    from that have "?st = [] \<or> (\<exists>v. ?st = [v])"
      by (cases ?st) auto
    with assms show ?thesis
      by (auto simp: evaluateBooleanQuery_def Let_def stackTop_def)
  qed
  from 1 2 show ?thesis by blast
qed

theorem result_is_bottom_witness:
  "trim ''a b'' \<noteq> [] \<and> evaluateBooleanQuery ''b'' ''a b'' = False \<and>
   trim ''b'' \<noteq> [] \<and> length (evalPostfix (normalizeText ''b'') (toPostfix (tokenize ''b''))) \<le> 1 \<and>
   evaluateBooleanQuery ''b'' ''b'' = True"
proof -
  have t: "trim ''a b'' \<noteq> []" "trim ''b'' \<noteq> []"
    by code_simp+
  have s: "evalPostfix (normalizeText ''b'') (toPostfix (tokenize ''a b'')) = [False, True]"
    "evalPostfix (normalizeText ''b'') (toPostfix (tokenize ''b'')) = [True]"
    by code_simp+
  from t s show ?thesis
    using result_is_bottom [of "''a b''" "''b''"] result_is_bottom [of "''b''" "''b''"]
    by (simp add: stackTop_def)
qed

lemmas shunting_simps = toPostfix_def popToParen.simps popHigher.simps popAll.simps
  precedence_def geq_def

lemma postfix_plain:
  "toPostfix [Term a, Op ''AND'', Term b, Op ''OR'', Op ''NOT'', Term c] =
     [Term a, Term b, Op ''AND'', Term c, Op ''NOT'', Op ''OR'']"
  by (simp add: shunting_simps)

lemma postfix_paren:
  "toPostfix [Op ''('', Term a, Op ''AND'', Term b, Op '')'', Op ''OR'',
              Op ''('', Op ''NOT'', Term c, Op '')''] =
     [Term a, Term b, Op ''AND'', Term c, Op ''NOT'', Op ''OR'']"
  by (simp add: shunting_simps)

lemma eval_and_or_not:
  "evalPostfix nc [Term a, Term b, Op ''AND'', Term c, Op ''NOT'', Op ''OR''] =
     [(matchTerm nc a \<and> matchTerm nc b) \<or> \<not> matchTerm nc c]"
  by (simp add: evalPostfix_def pop_def truthy_def)

lemma tokens_plain:
  assumes "plainTerm a" "plainTerm b" "plainTerm c"
  shows "tokenize (a @ '' AND '' @ b @ '' OR NOT '' @ c) =
     [Term a, Op ''AND'', Term b, Op ''OR'', Op ''NOT'', Term c]"
proof -
  have sp: "\<not> isTermChar (CHR '' '')"
    by (simp add: white_not_term space_white)
  have e: "tokenize [] = []"
    by (subst tokenize.simps) simp
  have 1: "tokenize (c @ []) = [Term c]"
    using tokenize_plainTerm [OF assms(3), of "[]"] e by simp
  have 2: "tokenize (''OR NOT '' @ c) = [Op ''OR'', Op ''NOT'', Term c]"
    using tokenize_OR [of "'' NOT '' @ c"] tokenize_NOT [of "'' '' @ c"] 1
    by (simp add: tokenize_space)
  have 3: "tokenize (b @ '' OR NOT '' @ c) = Term b # tokenize ('' OR NOT '' @ c)"
    using tokenize_plainTerm [OF assms(2), of "'' OR NOT '' @ c"] sp by simp
  have 4: "tokenize (''AND '' @ b @ '' OR NOT '' @ c) = [Op ''AND'', Term b, Op ''OR'', Op ''NOT'', Term c]"
    using tokenize_AND [of "'' '' @ b @ '' OR NOT '' @ c"] 2 3
    by (simp add: tokenize_space)
  have 5: "tokenize (a @ '' AND '' @ b @ '' OR NOT '' @ c) = Term a # tokenize ('' AND '' @ b @ '' OR NOT '' @ c)"
    using tokenize_plainTerm [OF assms(1), of "'' AND '' @ b @ '' OR NOT '' @ c"] sp by simp
  from 4 5 show ?thesis
    by (simp add: tokenize_space)
qed

lemma tokens_paren:
  assumes "plainTerm a" "plainTerm b" "plainTerm c"
  shows "tokenize (''('' @ a @ '' AND '' @ b @ '') OR (NOT '' @ c @ '')'') =
     [Op ''('', Term a, Op ''AND'', Term b, Op '')'', Op ''OR'',
      Op ''('', Op ''NOT'', Term c, Op '')'']"
proof -
  have sp: "\<not> isTermChar (CHR '' '')"
    by (simp add: white_not_term space_white)
  have cl: "\<not> isTermChar (CHR '')'')"
    by (simp add: isTermChar_def)
  have e: "tokenize [] = []"
    by (subst tokenize.simps) simp
  have 1: "tokenize (c @ '')'') = [Term c, Op '')'']"
    using tokenize_plainTerm [OF assms(3), of "'')''"] cl tokenize_close [of "[]"] e by simp
  have 2: "tokenize (''(NOT '' @ c @ '')'') = [Op ''('', Op ''NOT'', Term c, Op '')'']"
    using tokenize_open [of "''NOT '' @ c @ '')''"] tokenize_NOT [of "'' '' @ c @ '')''"] 1
    by (simp add: tokenize_space)
  have 3: "tokenize ('') OR (NOT '' @ c @ '')'') =
      [Op '')'', Op ''OR'', Op ''('', Op ''NOT'', Term c, Op '')'']"
    using tokenize_close [of "'' OR (NOT '' @ c @ '')''"] tokenize_OR [of "'' (NOT '' @ c @ '')''"] 2
    by (simp add: tokenize_space)
  have 4: "tokenize (b @ '') OR (NOT '' @ c @ '')'') = Term b # tokenize ('') OR (NOT '' @ c @ '')'')"
    using tokenize_plainTerm [OF assms(2), of "'') OR (NOT '' @ c @ '')''"] cl by simp
  have 5: "tokenize (''AND '' @ b @ '') OR (NOT '' @ c @ '')'') =
      [Op ''AND'', Term b, Op '')'', Op ''OR'', Op ''('', Op ''NOT'', Term c, Op '')'']"
    using tokenize_AND [of "'' '' @ b @ '') OR (NOT '' @ c @ '')''"] 3 4
    by (simp add: tokenize_space)
  have 6: "tokenize (a @ '' AND '' @ b @ '') OR (NOT '' @ c @ '')'') =
      Term a # tokenize ('' AND '' @ b @ '') OR (NOT '' @ c @ '')'')"
    using tokenize_plainTerm [OF assms(1), of "'' AND '' @ b @ '') OR (NOT '' @ c @ '')''"] sp by simp
  from 5 6 show ?thesis
    using tokenize_open [of "a @ '' AND '' @ b @ '') OR (NOT '' @ c @ '')''"]
    by (simp add: tokenize_space)
qed

lemma plainTerm_trim: "plainTerm a \<Longrightarrow> trim (a @ rest) \<noteq> []"
proof -
  assume "plainTerm a"
  then obtain c where "c \<in> set a" "isTermChar c"
    by (cases a) (auto simp: plainTerm_def)
  then have "\<exists>c \<in> set (a @ rest). \<not> isWhiteSpace c"
    using white_not_term by auto
  then show ?thesis by (simp add: trim_Nil_iff)
qed

text \<open>
  C4. For plain terms A, B and C and every content, the query \<open>A AND B OR NOT C\<close>
  evaluates to the same boolean as \<open>(A AND B) OR (NOT C)\<close>, namely to the
  disjunction of the conjunction of the matches of A and B with the negated match
  of C.
\<close>

theorem precedence_equivalence:
  assumes "plainTerm a" "plainTerm b" "plainTerm c"
  shows "evaluateBooleanQuery contentText (a @ '' AND '' @ b @ '' OR NOT '' @ c) =
         evaluateBooleanQuery contentText (''('' @ a @ '' AND '' @ b @ '') OR (NOT '' @ c @ '')'') \<and>
         evaluateBooleanQuery contentText (a @ '' AND '' @ b @ '' OR NOT '' @ c) =
         ((matchTerm (normalizeText contentText) a \<and> matchTerm (normalizeText contentText) b) \<or>
          \<not> matchTerm (normalizeText contentText) c)"
proof -
  have t1: "trim (a @ '' AND '' @ b @ '' OR NOT '' @ c) \<noteq> []"
    using plainTerm_trim [OF assms(1)] .
  have "\<not> isWhiteSpace (CHR ''('')" by code_simp
  then have t2: "trim (''('' @ a @ '' AND '' @ b @ '') OR (NOT '' @ c @ '')'') \<noteq> []"
    by (simp add: trim_Nil_iff)
  have 1: "evaluateBooleanQuery contentText (a @ '' AND '' @ b @ '' OR NOT '' @ c) =
         ((matchTerm (normalizeText contentText) a \<and> matchTerm (normalizeText contentText) b) \<or>
          \<not> matchTerm (normalizeText contentText) c)"
    using t1
    by (simp add: evaluateBooleanQuery_def tokens_plain [OF assms] postfix_plain
        eval_and_or_not Let_def del: append.simps)
  have 2: "evaluateBooleanQuery contentText (''('' @ a @ '' AND '' @ b @ '') OR (NOT '' @ c @ '')'') =
         ((matchTerm (normalizeText contentText) a \<and> matchTerm (normalizeText contentText) b) \<or>
          \<not> matchTerm (normalizeText contentText) c)"
    using t2
    by (simp add: evaluateBooleanQuery_def tokens_paren [OF assms] postfix_paren
        eval_and_or_not Let_def del: append.simps)
  from 1 2 show ?thesis by simp
qed

theorem precedence_equivalence_witness:
  "plainTerm ''joao'' \<and> plainTerm ''maria'' \<and> plainTerm ''pedro'' \<and>
   evaluateBooleanQuery ''joao e maria'' ''joao AND maria OR NOT pedro'' =
   evaluateBooleanQuery ''joao e maria'' ''(joao AND maria) OR (NOT pedro)'' \<and>
   evaluateBooleanQuery ''joao e maria'' ''joao AND maria OR NOT pedro''"
proof -
  have p: "plainTerm ''joao''" "plainTerm ''maria''" "plainTerm ''pedro''"
    by code_simp+
  have n: "normalizeText ''joao e maria'' = ''joao e maria''"
    by code_simp
  have m: "matchTerm ''joao e maria'' ''joao''" "matchTerm ''joao e maria'' ''maria''"
    by code_simp+
  have q: "''joao'' @ '' AND '' @ ''maria'' @ '' OR NOT '' @ ''pedro'' = ''joao AND maria OR NOT pedro''"
    "''('' @ ''joao'' @ '' AND '' @ ''maria'' @ '') OR (NOT '' @ ''pedro'' @ '')'' =
       ''(joao AND maria) OR (NOT pedro)''"
    by simp_all
  from precedence_equivalence [OF p, of "''joao e maria''"]
  have "evaluateBooleanQuery ''joao e maria'' ''joao AND maria OR NOT pedro'' =
        evaluateBooleanQuery ''joao e maria'' ''(joao AND maria) OR (NOT pedro)''"
    and "evaluateBooleanQuery ''joao e maria'' ''joao AND maria OR NOT pedro''"
    unfolding q n using m by blast+
  with p show ?thesis by blast
qed

lemma includes_single: "includes_str s [c] \<longleftrightarrow> c \<in> set s"
  by (induction s) (auto simp: includes_str_def sublist_Cons_right)

lemma matchWords_iff:
  "matchWords tn th ws \<longleftrightarrow>
     (\<exists>w \<in> set ws. \<bar>int (length w) - int (length tn)\<bar> \<le> int th \<and> levenshtein w tn \<le> th)"
  by (induction ws) (auto simp: getLevenshteinDistance_levenshtein)

text \<open>
  C3, as stated, asks that the normalized term contain no white space. The code tests
  for the space character only: a term with a TAB inside is matched fuzzily.
\<close>

theorem matchTerm_whitespace_counterexample:
  "\<not> includes_str ''abxcd'' (normalizeText [CHR ''a'', CHR ''b'', CHR 0x09, CHR ''c'', CHR ''d'']) \<and>
   (\<exists>c \<in> set (normalizeText [CHR ''a'', CHR ''b'', CHR 0x09, CHR ''c'', CHR ''d'']). isWhiteSpace c) \<and>
   matchTerm ''abxcd'' [CHR ''a'', CHR ''b'', CHR 0x09, CHR ''c'', CHR ''d'']"
  by code_simp

text \<open>
  C3, amended: for every content and every raw term whose normalized form is not a
  substring of the content, \<open>matchTerm\<close> returns true if and only if the normalized
  term is longer than 3, contains no space character, and some word of the content
  (split at runs of non-word characters) differs in length from the term by at most
  the threshold (1 for a term of length at most 5, else 2) and is at Levenshtein
  distance at most the threshold from it.
\<close>

theorem matchTerm_fuzzy:
  assumes "\<not> includes_str contentText (normalizeText term)"
  shows "matchTerm contentText term =
     (length (normalizeText term) > 3 \<and> CHR '' '' \<notin> set (normalizeText term) \<and>
      (\<exists>word \<in> set (splitNonWord contentText).
         \<bar>int (length word) - int (length (normalizeText term))\<bar>
           \<le> int (if length (normalizeText term) \<le> 5 then 1 else 2) \<and>
         levenshtein word (normalizeText term) \<le> (if length (normalizeText term) \<le> 5 then 1 else 2)))"
  using assms by (simp add: matchTerm_def Let_def matchWords_iff includes_single)

theorem matchTerm_fuzzy_witness:
  "\<not> includes_str ''lisboa'' (normalizeText ''lisbao'') \<and> matchTerm ''lisboa'' ''lisbao'' \<and>
   (\<exists>word \<in> set (splitNonWord ''lisboa''). levenshtein word ''lisbao'' \<le> 2)"
proof -
  have n: "normalizeText ''lisbao'' = ''lisbao''"
    by code_simp
  have i: "\<not> includes_str ''lisboa'' (normalizeText ''lisbao'')"
    by code_simp
  have m: "matchTerm ''lisboa'' ''lisbao''"
    by code_simp
  from matchTerm_fuzzy [OF i] m have
    "\<exists>word \<in> set (splitNonWord ''lisboa'').
       \<bar>int (length word) - int (length ''lisbao'')\<bar> \<le> int (if length ''lisbao'' \<le> 5 then 1 else 2) \<and>
       levenshtein word ''lisbao'' \<le> (if length ''lisbao'' \<le> 5 then 1 else 2)"
    unfolding n by blast
  then have "\<exists>word \<in> set (splitNonWord ''lisboa''). levenshtein word ''lisbao'' \<le> 2"
    by auto
  with i m show ?thesis by blast
qed

lemma normalizeText_append: "normalizeText (s @ t) = normalizeText s @ normalizeText t"
  by (simp add: normalizeText_def toLowerCase_def nfd_def stripMarks_def)

lemma space_normalized: "CHR '' '' \<in> set p \<Longrightarrow> CHR '' '' \<in> set (normalizeText p)"
proof -
  assume "CHR '' '' \<in> set p"
  then obtain u v where "p = u @ CHR '' '' # v"
    by (meson split_list)
  moreover have "normalizeText '' '' = '' ''" by code_simp
  ultimately show ?thesis
    using normalizeText_append [of u "CHR '' '' # v"] normalizeText_append [of "'' ''" v]
    by simp
qed

lemma operatorWord_suffix: "operatorWord w s = Some r \<Longrightarrow> suffix r s"
proof (induction w s rule: operatorWord.induct)
  case (3 p ps c cs)
  then show ?case by (auto split: if_splits intro: suffix_ConsI)
qed simp_all

lemma operatorAt_suffix: "operatorAt ps s = Some (g, r) \<Longrightarrow> suffix r s"
  by (induction ps) (auto split: option.splits dest: operatorWord_suffix)

lemma matchAt_suffix: "matchAt s = Some (m, r) \<Longrightarrow> suffix r s"
proof -
  assume a: "matchAt s = Some (m, r)"
  have q: "suffix r' s" if "quotedPhrase s = Some (g, r')" for g r'
  proof -
    from that obtain c cs where s: "s = c # cs" and r': "r' = tl (dropWhile (\<lambda>x. x \<noteq> quote) cs)"
      by (auto simp: quotedPhrase_def Let_def split: list.splits if_splits)
    have "suffix (dropWhile (\<lambda>x. x \<noteq> quote) cs) cs"
      by (rule suffix_dropWhile)
    then have "suffix (tl (dropWhile (\<lambda>x. x \<noteq> quote) cs)) cs"
      by (meson suffix_order.trans suffix_tl)
    with s r' show ?thesis by (simp add: suffix_ConsI)
  qed
  have w: "suffix r' s" if "bareWord s = Some (g, r')" for g r'
    using that by (auto simp: bareWord_def Let_def suffix_dropWhile split: if_splits)
  from a show ?thesis
    by (auto simp: matchAt_def split: option.splits dest: q w operatorAt_suffix)
qed

lemma exec_suffix: "exec s = Some (m, r) \<Longrightarrow> suffix r s"
proof (induction s)
  case Nil
  then show ?case by simp
next
  case (Cons c cs)
  then show ?case
    by (auto split: option.splits dest: matchAt_suffix intro: suffix_ConsI)
qed

lemma operatorWord_before:
  assumes "upperChar sep \<notin> set w"
  shows "operatorWord w (p @ sep # s) = map_option (\<lambda>r. r @ sep # s) (operatorWord w p)"
  using assms by (induction w p rule: operatorWord.induct) auto

lemma operatorWord_length: "operatorWord w p = Some r \<Longrightarrow> length w \<le> length p"
  by (induction w p rule: operatorWord.induct) (auto split: if_splits)

lemma operatorAt_before:
  assumes "\<forall>w \<in> set ps. upperChar sep \<notin> set w"
  shows "operatorAt ps (p @ sep # s) = map_option (\<lambda>(g, r). (g, r @ sep # s)) (operatorAt ps p)"
  using assms
proof (induction ps)
  case Nil
  show ?case by simp
next
  case (Cons w ps)
  then show ?case
    by (cases "operatorWord w p") (auto simp: operatorWord_before dest: operatorWord_length)
qed

lemma bareWord_before:
  assumes "\<not> isTermChar sep"
  shows "bareWord (p @ sep # s) = map_option (\<lambda>(g, r). (g, r @ sep # s)) (bareWord p)"
proof -
  have tw: "takeWhile isTermChar (p @ sep # s) = takeWhile isTermChar p"
    using assms by (induction p) auto
  have dw: "dropWhile isTermChar (p @ sep # s) = dropWhile isTermChar p @ sep # s"
    using assms by (induction p) auto
  show ?thesis
    by (simp add: bareWord_def Let_def tw dw)
qed

lemma matchAt_before:
  assumes "separator sep" and "quote \<notin> set p" and "p \<noteq> []"
  shows "matchAt (p @ sep # s) = map_option (\<lambda>(m, r). (m, r @ sep # s)) (matchAt p)"
proof -
  from assms(2,3) obtain c cs where p: "p = c # cs" and c: "c \<noteq> quote"
    by (cases p) auto
  have q: "quotedPhrase (p @ sep # s) = None" "quotedPhrase p = None"
    using p c by (simp_all add: quotedPhrase_def)
  have o: "operatorAt operators (p @ sep # s) =
      map_option (\<lambda>(g, r). (g, r @ sep # s)) (operatorAt operators p)"
    using assms(1) by (intro operatorAt_before) (simp add: separator_def)
  have b: "bareWord (p @ sep # s) = map_option (\<lambda>(g, r). (g, r @ sep # s)) (bareWord p)"
    using assms(1) by (intro bareWord_before) (simp add: separator_def)
  show ?thesis
    by (cases "operatorAt operators p"; cases "bareWord p") (auto simp: matchAt_def q o b)
qed

lemma exec_before:
  assumes "separator sep" and "quote \<notin> set p"
  shows "exec (p @ sep # s) =
     (case exec p of None \<Rightarrow> exec (sep # s) | Some (m, r) \<Rightarrow> Some (m, r @ sep # s))"
  using assms(2)
proof (induction p)
  case Nil
  show ?case by simp
next
  case (Cons c cs)
  have "matchAt ((c # cs) @ sep # s) = map_option (\<lambda>(m, r). (m, r @ sep # s)) (matchAt (c # cs))"
    using assms(1) Cons.prems by (intro matchAt_before) auto
  with Cons show ?case
    by (cases "matchAt (c # cs)") auto
qed

lemma tokenize_before:
  assumes "separator sep"
  shows "quote \<notin> set p \<Longrightarrow> tokenize (p @ sep # s) = tokenize p @ tokenize (sep # s)"
proof (induction p rule: tokenize.induct)
  case (1 query)
  note e = exec_before [OF assms "1.prems", of s]
  show ?case
  proof (cases "exec query")
    case None
    with e have "exec (query @ sep # s) = exec (sep # s)" by simp
    then have "tokenize (query @ sep # s) = tokenize (sep # s)"
      by (subst tokenize.simps, subst (2) tokenize.simps) simp
    moreover from None have "tokenize query = []"
      by (subst tokenize.simps) simp
    ultimately show ?thesis by simp
  next
    case (Some x)
    obtain m r where x: "x = (m, r)" by (cases x)
    from Some x exec_suffix have "suffix r query" by blast
    then have "set r \<subseteq> set query" by (rule set_mono_suffix)
    with "1.prems" have "quote \<notin> set r" by blast
    with "1.IH" Some x have ih: "tokenize (r @ sep # s) = tokenize r @ tokenize (sep # s)"
      by simp
    from e Some x have "exec (query @ sep # s) = Some (m, r @ sep # s)" by simp
    then have "tokenize (query @ sep # s) = tokenOf m @ tokenize (r @ sep # s)"
      by (subst tokenize.simps) simp
    moreover from Some x have "tokenize query = tokenOf m @ tokenize r"
      by (subst tokenize.simps) simp
    ultimately show ?thesis using ih by simp
  qed
qed

lemma separator_quote: "separator quote"
  by code_simp

lemma separator_space: "separator (CHR '' '')"
  by code_simp

lemma tokenize_quoted_rest:
  assumes "p \<noteq> []" "quote \<notin> set p"
  shows "tokenize (quote # p @ quote # rest) = Term p # tokenize rest"
proof -
  have tw: "takeWhile (\<lambda>x. x \<noteq> quote) (p @ quote # rest) = p"
    and dw: "dropWhile (\<lambda>x. x \<noteq> quote) (p @ quote # rest) = quote # rest"
    using assms(2) by (simp_all add: takeWhile_append dropWhile_append)
  have "quotedPhrase (quote # p @ quote # rest) = Some (p, rest)"
    using assms(1) by (simp add: quotedPhrase_def tw dw)
  then have "matchAt (quote # p @ quote # rest) =
      Some (\<lparr>group1 = Some p, group2 = None, group3 = None\<rparr>, rest)"
    by (simp add: matchAt_def)
  from tokenize_match [OF this] assms(1) show ?thesis
    by (simp add: tokenOf_def truthyGroup_def)
qed

lemma tokens_quoted:
  assumes "p \<noteq> []" "quote \<notin> set p" "quote \<notin> set pre"
  shows "tokenize (pre @ quote # p @ quote # rest) = tokenize pre @ Term p # tokenize rest"
  using tokenize_before [OF separator_quote assms(3), of "p @ quote # rest"]
    tokenize_quoted_rest [OF assms(1,2), of rest] by simp

lemma tokens_spaced:
  assumes "plainTerm p" "quote \<notin> set pre"
  shows "tokenize (pre @ CHR '' '' # p @ CHR '' '' # rest) = tokenize pre @ Term p # tokenize rest"
proof -
  have "\<not> isTermChar (CHR '' '')"
    by (simp add: white_not_term space_white)
  then have "tokenize (p @ CHR '' '' # rest) = Term p # tokenize (CHR '' '' # rest)"
    using tokenize_plainTerm [OF assms(1), of "CHR '' '' # rest"] by simp
  then show ?thesis
    using tokenize_before [OF separator_space assms(2), of "p @ CHR '' '' # rest"]
    by (simp add: tokenize_space)
qed

lemma evaluate_same_tokens:
  assumes "tokenize q = tokenize q'" "trim q \<noteq> []" "trim q' \<noteq> []"
  shows "evaluateBooleanQuery c q = evaluateBooleanQuery c q'"
  using assms by (simp add: evaluateBooleanQuery_def)

lemma matchTerm_iff:
  "matchTerm nc p =
     (includes_str nc (normalizeText p) \<or>
      length (normalizeText p) > 3 \<and> CHR '' '' \<notin> set (normalizeText p) \<and>
      (\<exists>word \<in> set (splitNonWord nc).
         \<bar>int (length word) - int (length (normalizeText p))\<bar>
           \<le> int (if length (normalizeText p) \<le> 5 then 1 else 2) \<and>
         levenshtein word (normalizeText p) \<le> (if length (normalizeText p) \<le> 5 then 1 else 2)))"
  by (simp add: matchTerm_def Let_def matchWords_iff includes_single)

text \<open>
  C2, as stated: a quoted phrase is matched by exact substring containment only. It
  fails for the quoted word \<open>marta\<close> on the content \<open>maria\<close>: the phrase is the only token,
  it is not a substring of the content, it is at edit distance 1 from the word
  \<open>maria\<close>, and the query matches.
\<close>

theorem quoted_phrase_exact_counterexample:
  "tokenize (quote # ''marta'' @ [quote]) = [Term ''marta''] \<and>
   \<not> includes_str (normalizeText ''maria'') (normalizeText ''marta'') \<and>
   levenshtein ''maria'' ''marta'' = 1 \<and>
   evaluateBooleanQuery ''maria'' (quote # ''marta'' @ [quote])"
  by code_simp

text \<open>
  C2, amended: the first quoted phrase of a query (non-empty text between two double
  quotes, with no double quote before it) becomes a term token holding the phrase, as a
  bare word does, between the tokens of the text before it and those of the text after
  it; quoting a plain word instead of setting it off by spaces never changes the
  result of a query. A query that is one quoted phrase evaluates to \<open>matchTerm\<close> on the
  normalized content and the phrase, and \<open>matchTerm\<close> is true exactly when the normalized
  phrase is a substring of the normalized content, or the normalized phrase is longer
  than 3 characters, contains no space character, and some word of the content (split
  at runs of non-word characters) differs in length from it by at most the threshold
  (1 for a phrase of length at most 5, else 2) and is at Levenshtein distance at most
  the threshold from it. So a quoted phrase that contains a space character, or whose
  normalized form has at most 3 characters, is matched by exact substring containment
  alone, and a longer quoted single word also matches fuzzily, as a bare word does.
\<close>

theorem quoted_phrase_matching:
  assumes "p \<noteq> []" "quote \<notin> set p" "quote \<notin> set pre"
  shows "tokenize (pre @ quote # p @ quote # rest) = tokenize pre @ Term p # tokenize rest \<and>
     (plainTerm p \<longrightarrow>
        evaluateBooleanQuery contentText (pre @ quote # p @ quote # rest) =
        evaluateBooleanQuery contentText (pre @ CHR '' '' # p @ CHR '' '' # rest)) \<and>
     evaluateBooleanQuery contentText (quote # p @ [quote]) = matchTerm (normalizeText contentText) p \<and>
     matchTerm nc p =
       (includes_str nc (normalizeText p) \<or>
        length (normalizeText p) > 3 \<and> CHR '' '' \<notin> set (normalizeText p) \<and>
        (\<exists>word \<in> set (splitNonWord nc).
           \<bar>int (length word) - int (length (normalizeText p))\<bar>
             \<le> int (if length (normalizeText p) \<le> 5 then 1 else 2) \<and>
           levenshtein word (normalizeText p) \<le> (if length (normalizeText p) \<le> 5 then 1 else 2))) \<and>
     (CHR '' '' \<in> set p \<or> length (normalizeText p) \<le> 3 \<longrightarrow>
        matchTerm nc p = includes_str nc (normalizeText p))"
proof -
  have nq: "\<not> isWhiteSpace quote" by code_simp
  have 1: "tokenize (pre @ quote # p @ quote # rest) = tokenize pre @ Term p # tokenize rest"
    using assms by (rule tokens_quoted)
  have 2: "evaluateBooleanQuery contentText (pre @ quote # p @ quote # rest) =
        evaluateBooleanQuery contentText (pre @ CHR '' '' # p @ CHR '' '' # rest)" if "plainTerm p"
  proof (rule evaluate_same_tokens)
    show "tokenize (pre @ quote # p @ quote # rest) = tokenize (pre @ CHR '' '' # p @ CHR '' '' # rest)"
      using 1 tokens_spaced [OF that assms(3), of rest] by simp
    show "trim (pre @ quote # p @ quote # rest) \<noteq> []"
      using nq by (auto simp: trim_Nil_iff)
    from that obtain c where "c \<in> set p" "isTermChar c"
      by (cases p) (auto simp: plainTerm_def)
    then show "trim (pre @ CHR '' '' # p @ CHR '' '' # rest) \<noteq> []"
      using white_not_term by (auto simp: trim_Nil_iff)
  qed
  have t: "trim (quote # p @ [quote]) \<noteq> []"
    using nq by (simp add: trim_Nil_iff)
  have 3: "evaluateBooleanQuery contentText (quote # p @ [quote]) = matchTerm (normalizeText contentText) p"
    using t tokenize_quoted_rest [OF assms(1,2), of "[]"]
    by (simp add: evaluateBooleanQuery_def toPostfix_def popAll.simps evalPostfix_def Let_def
        tokenize.simps [of "[]"])
  have 4: "matchTerm nc p = includes_str nc (normalizeText p)"
    if "CHR '' '' \<in> set p \<or> length (normalizeText p) \<le> 3"
    using that space_normalized [of p] by (auto simp: matchTerm_iff)
  from 1 2 3 4 matchTerm_iff [of nc p] show ?thesis by blast
qed

theorem quoted_phrase_matching_witness:
  "''marta'' \<noteq> [] \<and> quote \<notin> set ''marta'' \<and> quote \<notin> set ''joao AND '' \<and> plainTerm ''marta'' \<and>
   tokenize (''joao AND '' @ quote # ''marta'' @ [quote]) = [Term ''joao'', Op ''AND'', Term ''marta''] \<and>
   evaluateBooleanQuery ''joao e maria'' (''joao AND '' @ quote # ''marta'' @ [quote]) =
     evaluateBooleanQuery ''joao e maria'' ''joao AND  marta '' \<and>
   evaluateBooleanQuery ''maria'' (quote # ''marta'' @ [quote]) \<and>
   ''rua nova'' \<noteq> [] \<and> quote \<notin> set ''rua nova'' \<and> CHR '' '' \<in> set ''rua nova'' \<and>
   evaluateBooleanQuery ''na rua nova'' (quote # ''rua nova'' @ [quote]) \<and>
   \<not> evaluateBooleanQuery ''na rua nava'' (quote # ''rua nova'' @ [quote])"
proof -
  have ne: "''marta'' \<noteq> []" "''rua nova'' \<noteq> []" and sp: "CHR '' '' \<in> set ''rua nova''"
    by simp_all
  have q: "quote \<notin> set ''marta''" "quote \<notin> set ''joao AND ''" "quote \<notin> set ''rua nova''" "quote \<notin> set []"
    by code_simp+
  have pt: "plainTerm ''marta''"
    by code_simp
  have tk: "tokenize ''joao AND '' = [Term ''joao'', Op ''AND'']" "tokenize [] = []"
    by code_simp+
  have m: "matchTerm (normalizeText ''maria'') ''marta''"
    by code_simp
  have i: "includes_str (normalizeText ''na rua nova'') (normalizeText ''rua nova'')"
    "\<not> includes_str (normalizeText ''na rua nava'') (normalizeText ''rua nova'')"
    by code_simp+
  note a = quoted_phrase_matching [OF ne(1) q(1) q(2), of "[]" "''joao e maria''"]
  note b = quoted_phrase_matching [OF ne(1) q(1) q(4), of "[]" "''maria''"]
  note c = quoted_phrase_matching [OF ne(2) q(3) q(4), of "[]" "''na rua nova''" "normalizeText ''na rua nova''"]
  note d = quoted_phrase_matching [OF ne(2) q(3) q(4), of "[]" "''na rua nava''" "normalizeText ''na rua nava''"]
  from a tk have 1: "tokenize (''joao AND '' @ quote # ''marta'' @ [quote]) =
      [Term ''joao'', Op ''AND'', Term ''marta'']"
    by simp
  from a pt have 2: "evaluateBooleanQuery ''joao e maria'' (''joao AND '' @ quote # ''marta'' @ [quote]) =
     evaluateBooleanQuery ''joao e maria'' ''joao AND  marta ''"
    by simp
  from b m have 3: "evaluateBooleanQuery ''maria'' (quote # ''marta'' @ [quote])"
    by simp
  from c sp i(1) have 4: "evaluateBooleanQuery ''na rua nova'' (quote # ''rua nova'' @ [quote])"
    by blast
  from d sp i(2) have 5: "\<not> evaluateBooleanQuery ''na rua nava'' (quote # ''rua nova'' @ [quote])"
    by blast
  from ne q(1,2,3) pt sp 1 2 3 4 5 show ?thesis by blast
qed

section \<open>Properties of the normalizer\<close>



section \<open>Properties of the filter pipeline and of the sort stage\<close>

lemma bindE_Inr [simp]: "bindE (Inr v) k = k v"
  by (simp add: bindE_def)

lemma andThen_Inr: "andThen (Inr b) next = (if b then next else Inr False)"
  by (simp add: andThen_def split: bool.splits)

lemma total_Inr: "\<exists>b. Inr x = Inr b"
  by simp

lemma andThen_total:
  "\<exists>b. stage = Inr b \<Longrightarrow> \<exists>b. next = Inr b \<Longrightarrow> \<exists>b. andThen stage next = Inr b"
  by (auto simp: andThen_def split: bool.splits)

lemma callMethod_truthy: "truthyField v \<Longrightarrow> \<exists>x. v = Some x \<and> callMethod v f = Inr (f x)"
  by (cases v) (simp_all add: callMethod_def truthyField_def)

lemma parseDurationToSeconds_total: "\<exists>n. parseDurationToSeconds rt dur = Inr n"
proof (cases "truthyField dur")
  case True
  from callMethod_truthy [OF this] obtain d where "dur = Some d"
    and "callMethod dur (\<lambda>d. map (Number rt) (splitChar CHR '':'' d)) = Inr (map (Number rt) (splitChar CHR '':'' d))"
    by blast
  with True show ?thesis by (auto simp: parseDurationToSeconds_def)
next
  case False
  then show ?thesis by (auto simp: parseDurationToSeconds_def)
qed

lemma durationStage_total: "\<exists>b. durationStage rt f s = Inr b"
proof -
  obtain n where "parseDurationToSeconds rt (duration s) = Inr n"
    using parseDurationToSeconds_total by blast
  then show ?thesis by (auto simp: durationStage_def)
qed

lemma isTimeInRange_total: "\<exists>b. isTimeInRange time start end' = Inr b"
proof (cases "truthyField time")
  case True
  from callMethod_truthy [OF this] obtain t where "callMethod time (take 5) = Inr (take 5 t)"
    by blast
  with True show ?thesis by (auto simp: isTimeInRange_def)
next
  case False
  then show ?thesis by (auto simp: isTimeInRange_def)
qed

lemma timeStage_total: "\<exists>b. timeStage f s = Inr b"
  using isTimeInRange_total [of "startTime s" "timeStart f" "timeEnd f"]
  by (auto simp: timeStage_def)

lemma sourceSpeakerStage_total: "\<exists>b. sourceSpeakerStage aliasMap f s = Inr b"
proof (cases "speakerMatch (firstLine (content s))")
  case None
  then show ?thesis by (auto simp: sourceSpeakerStage_def Let_def)
next
  case (Some m)
  then show ?thesis by (auto simp: sourceSpeakerStage_def Let_def callMethod_def)
qed

lemma sessionPredicate_total: "\<exists>b. sessionPredicate rt aliasMap f s = Inr b"
  unfolding sessionPredicate_def
  by (intro andThen_total total_Inr durationStage_total sourceSpeakerStage_total timeStage_total)

lemma filterE_filter:
  assumes "\<And>x. \<exists>b. p x = Inr b"
  shows "filterE p xs = Inr (filter (\<lambda>x. p x = Inr True) xs)"
proof (induction xs)
  case Nil
  show ?case by simp
next
  case (Cons x xs)
  from assms obtain b where b: "p x = Inr b" by blast
  show ?case
    by (cases b) (simp_all add: b Cons)
qed

lemma filteredSessions_filter:
  "filteredSessions rt aliasMap sessions f activeTagIds savedTags viewOnlySelected manualSelection =
     Inr (filter (\<lambda>s. sessionPredicate rt aliasMap f s = Inr True)
            (baseSet sessions activeTagIds savedTags viewOnlySelected manualSelection))"
  unfolding filteredSessions_def by (rule filterE_filter) (rule sessionPredicate_total)

lemma durationStageV2_total: "\<exists>b. durationStageV2 rt f s = Inr b"
proof (cases "truthyField (duration s)")
  case True
  from callMethod_truthy [OF this] obtain d where "callMethod (duration s) (getSeconds rt) = Inr (getSeconds rt d)"
    by blast
  with True show ?thesis by (auto simp: durationStageV2_def)
next
  case False
  then show ?thesis by (auto simp: durationStageV2_def)
qed

lemma legalStageV2_total: "\<exists>b. legalStageV2 legalReferences selected s = Inr b"
  by (cases "legalReferenceIds s") (auto simp: legalStageV2_def callMethod_def)

lemma sessionPredicateV2_total:
  "\<exists>b. sessionPredicateV2 rt aliasMap legalReferences activeTagIds savedTags viewOnlySelected
     manualSelection f s = Inr b"
  unfolding sessionPredicateV2_def
  by (intro andThen_total total_Inr durationStageV2_total legalStageV2_total)

lemma filteredSessionsV2_filter:
  "filteredSessionsV2 rt aliasMap legalReferences sessions f activeTagIds savedTags
      viewOnlySelected manualSelection =
     Inr (filter (\<lambda>s. sessionPredicateV2 rt aliasMap legalReferences activeTagIds savedTags
                    viewOnlySelected manualSelection f s = Inr True) sessions)"
  unfolding filteredSessionsV2_def by (rule filterE_filter) (rule sessionPredicateV2_total)

lemma durationStage_not_audio:
  assumes "type s \<noteq> AUDIO" and "minDuration f \<noteq> [] \<or> maxDuration f \<noteq> []"
  shows "durationStage rt f s = Inr False" and "durationStageV2 rt f s = Inr False"
  using assms by (auto simp: durationStage_def durationStageV2_def truthyString_def)

lemma andThen_False: "andThen (Inr False) next = Inr False"
  by (simp add: andThen_def)

lemma andThen_reject: "\<exists>b. stage = Inr b \<Longrightarrow> next = Inr False \<Longrightarrow> andThen stage next = Inr False"
  by (auto simp: andThen_def split: bool.splits)

lemma sessionPredicate_rejects:
  "durationStage rt f s = Inr False \<Longrightarrow> sessionPredicate rt aliasMap f s = Inr False"
  by (simp add: sessionPredicate_def andThen_False)

lemma sessionPredicateV2_rejects:
  assumes "durationStageV2 rt f s = Inr False"
  shows "sessionPredicateV2 rt aliasMap legalReferences activeTagIds savedTags viewOnlySelected
     manualSelection f s = Inr False"
  unfolding sessionPredicateV2_def assms
  by (intro andThen_reject total_Inr andThen_False)

text \<open>
  C5. A session of type SMS is rejected whenever the minimum or the maximum duration
  bound (or both) is a non-empty string, whatever the bound and the other fields of
  the session are: the per-session predicate returns false and the session is not in
  the filtered list. This holds for the filter of the first component and for the
  filter of the second one.
\<close>

theorem sms_rejected_by_duration_filter:
  assumes "type s = SMS" and "minDuration f \<noteq> [] \<or> maxDuration f \<noteq> []"
  shows "sessionPredicate rt aliasMap f s = Inr False \<and>
    (\<exists>kept. filteredSessions rt aliasMap sessions f activeTagIds savedTags viewOnlySelected
        manualSelection = Inr kept \<and> s \<notin> set kept) \<and>
    sessionPredicateV2 rt aliasMap legalReferences activeTagIds savedTags viewOnlySelected
      manualSelection f s = Inr False \<and>
    (\<exists>kept. filteredSessionsV2 rt aliasMap legalReferences sessions f activeTagIds savedTags
        viewOnlySelected manualSelection = Inr kept \<and> s \<notin> set kept)"
proof -
  from assms(1) have na: "type s \<noteq> AUDIO" by simp
  have 1: "sessionPredicate rt aliasMap f s = Inr False"
    using durationStage_not_audio(1) [OF na assms(2)] by (rule sessionPredicate_rejects)
  have 2: "sessionPredicateV2 rt aliasMap legalReferences activeTagIds savedTags viewOnlySelected
      manualSelection f s = Inr False"
    using durationStage_not_audio(2) [OF na assms(2)] by (rule sessionPredicateV2_rejects)
  from 1 2 show ?thesis
    by (simp add: filteredSessions_filter filteredSessionsV2_filter)
qed

theorem sms_rejected_by_duration_filter_witness:
  "type smsSession = SMS \<and> maxDuration (exampleFilters\<lparr>maxDuration := ''600''\<rparr>) \<noteq> [] \<and>
   sessionPredicate exampleRuntime Map.empty (exampleFilters\<lparr>maxDuration := ''600''\<rparr>) smsSession
     = Inr False \<and>
   filteredSessions exampleRuntime Map.empty [smsSession] (exampleFilters\<lparr>maxDuration := ''600''\<rparr>)
     [] [] False {} = Inr [] \<and>
   filteredSessionsV2 exampleRuntime Map.empty [] [smsSession]
     (exampleFilters\<lparr>maxDuration := ''600''\<rparr>) [] [] False {} = Inr []"
proof -
  have t: "type smsSession = SMS"
    by (simp add: smsSession_def)
  have m: "minDuration (exampleFilters\<lparr>maxDuration := ''600''\<rparr>) \<noteq> [] \<or>
      maxDuration (exampleFilters\<lparr>maxDuration := ''600''\<rparr>) \<noteq> []"
    by simp
  from sms_rejected_by_duration_filter [OF t m, of exampleRuntime Map.empty "[smsSession]" "[]" "[]"
      False "{}" "[]"]
  have "sessionPredicate exampleRuntime Map.empty (exampleFilters\<lparr>maxDuration := ''600''\<rparr>)
      smsSession = Inr False"
    and "\<exists>kept. filteredSessions exampleRuntime Map.empty [smsSession]
        (exampleFilters\<lparr>maxDuration := ''600''\<rparr>) [] [] False {} = Inr kept \<and> smsSession \<notin> set kept"
    and "\<exists>kept. filteredSessionsV2 exampleRuntime Map.empty [] [smsSession]
        (exampleFilters\<lparr>maxDuration := ''600''\<rparr>) [] [] False {} = Inr kept \<and> smsSession \<notin> set kept"
    by blast+
  moreover have "kept = []"
    if "filteredSessions exampleRuntime Map.empty [smsSession]
        (exampleFilters\<lparr>maxDuration := ''600''\<rparr>) [] [] False {} = Inr kept" "smsSession \<notin> set kept"
    for kept
    using that by (cases kept) (auto simp: filteredSessions_filter baseSet_def split: if_splits)
  moreover have "kept = []"
    if "filteredSessionsV2 exampleRuntime Map.empty [] [smsSession]
        (exampleFilters\<lparr>maxDuration := ''600''\<rparr>) [] [] False {} = Inr kept" "smsSession \<notin> set kept"
    for kept
    using that by (cases kept) (auto simp: filteredSessionsV2_filter split: if_splits)
  ultimately show ?thesis
    using t by auto
qed

lemma parseDuration_zero:
  assumes "duration s = None \<or>
     (\<exists>d. duration s = Some d \<and> length (splitChar CHR '':'' d) \<noteq> 2 \<and>
          length (splitChar CHR '':'' d) \<noteq> 3)"
  shows "parseDurationToSeconds rt (duration s) = Inr (Fin 0)"
proof (cases "truthyField (duration s)")
  case True
  with assms obtain d where d: "duration s = Some d"
    and l: "length (splitChar CHR '':'' d) \<noteq> 2" "length (splitChar CHR '':'' d) \<noteq> 3"
    by (auto simp: truthyField_def)
  with True show ?thesis
    by (simp add: parseDurationToSeconds_def callMethod_def)
next
  case False
  then show ?thesis by (simp add: parseDurationToSeconds_def)
qed

text \<open>
  C10, amended: for an AUDIO session whose duration is absent, or does not split at
  colons into exactly two or three parts, the duration is read as 0 seconds. Such a
  session is rejected by every filter set whose minimum bound parses to a positive
  integer. With a maximum bound alone it is rejected exactly when that bound parses
  to a negative number, and never otherwise.
\<close>

theorem missing_duration_is_zero:
  assumes "type s = AUDIO"
    and "duration s = None \<or>
     (\<exists>d. duration s = Some d \<and> length (splitChar CHR '':'' d) \<noteq> 2 \<and>
          length (splitChar CHR '':'' d) \<noteq> 3)"
  shows "parseDurationToSeconds rt (duration s) = Inr (Fin 0) \<and>
    (\<forall>n. parseInt (minDuration f) (Some 10) = Fin n \<and> 0 < n \<longrightarrow>
       durationStage rt f s = Inr False \<and> sessionPredicate rt aliasMap f s = Inr False) \<and>
    (minDuration f = [] \<and> maxDuration f \<noteq> [] \<longrightarrow>
       durationStage rt f s = Inr (\<not> jsLess (parseInt (maxDuration f) (Some 10)) (Fin 0)))"
proof -
  have z: "parseDurationToSeconds rt (duration s) = Inr (Fin 0)"
    using assms(2) by (rule parseDuration_zero)
  have a: "durationStage rt f s = Inr False \<and> sessionPredicate rt aliasMap f s = Inr False"
    if "parseInt (minDuration f) (Some 10) = Fin n" "0 < n" for n
  proof -
    have "minDuration f \<noteq> []"
      using that(1) by (auto simp: parseInt_def parseDigits_def Let_def)
    with that assms(1) have "durationStage rt f s = Inr False"
      by (simp add: durationStage_def z truthyString_def isNaN_def)
    then show ?thesis
      by (simp add: sessionPredicate_rejects)
  qed
  have b: "durationStage rt f s = Inr (\<not> jsLess (parseInt (maxDuration f) (Some 10)) (Fin 0))"
    if "minDuration f = []" "maxDuration f \<noteq> []"
    using that assms(1)
    by (cases "parseInt (maxDuration f) (Some 10)")
      (simp_all add: durationStage_def z truthyString_def isNaN_def)
  from z a b show ?thesis by blast
qed

text \<open>
  C10, as stated, says that such a session is never rejected by a maximum bound
  alone. It fails for the bound \<open>-1\<close>: the session has no duration, which reads as 0,
  and 0 exceeds the bound.
\<close>

theorem max_bound_alone_counterexample:
  "type exampleSession = AUDIO \<and> duration exampleSession = None \<and>
   minDuration (exampleFilters\<lparr>maxDuration := ''-1''\<rparr>) = [] \<and>
   durationStage exampleRuntime (exampleFilters\<lparr>maxDuration := ''-1''\<rparr>) exampleSession = Inr False \<and>
   sessionPredicate exampleRuntime Map.empty (exampleFilters\<lparr>maxDuration := ''-1''\<rparr>) exampleSession
     = Inr False"
proof -
  have p: "parseInt ''-1'' (Some 10) = Fin (- 1)"
    by code_simp
  have d: "durationStage exampleRuntime (exampleFilters\<lparr>maxDuration := ''-1''\<rparr>) exampleSession = Inr False"
    by (simp add: durationStage_def exampleFilters_def exampleSession_def parseDurationToSeconds_def
        truthyString_def truthyField_def isNaN_def p)
  from d sessionPredicate_rejects [OF d] show ?thesis
    by (simp add: exampleFilters_def exampleSession_def)
qed

theorem missing_duration_is_zero_witness:
  "type exampleSession = AUDIO \<and> duration exampleSession = None \<and>
   parseInt (minDuration (exampleFilters\<lparr>minDuration := ''60''\<rparr>)) (Some 10) = Fin 60 \<and>
   durationStage exampleRuntime (exampleFilters\<lparr>minDuration := ''60''\<rparr>) exampleSession = Inr False \<and>
   durationStage exampleRuntime (exampleFilters\<lparr>maxDuration := ''600''\<rparr>) exampleSession = Inr True"
proof -
  have t: "type exampleSession = AUDIO" and d: "duration exampleSession = None"
    by (simp_all add: exampleSession_def)
  have p: "parseInt ''60'' (Some 10) = Fin 60" "parseInt ''600'' (Some 10) = Fin 600"
    by code_simp+
  have m: "minDuration (exampleFilters\<lparr>minDuration := ''60''\<rparr>) = ''60''"
    "minDuration (exampleFilters\<lparr>maxDuration := ''600''\<rparr>) = []"
    "maxDuration (exampleFilters\<lparr>maxDuration := ''600''\<rparr>) = ''600''"
    by (simp_all add: exampleFilters_def)
  have h: "duration exampleSession = None \<or>
     (\<exists>d. duration exampleSession = Some d \<and> length (splitChar CHR '':'' d) \<noteq> 2 \<and>
          length (splitChar CHR '':'' d) \<noteq> 3)"
    using d by simp
  from missing_duration_is_zero [OF t h, of exampleRuntime "exampleFilters\<lparr>minDuration := ''60''\<rparr>"
      Map.empty]
  have 1: "durationStage exampleRuntime (exampleFilters\<lparr>minDuration := ''60''\<rparr>) exampleSession = Inr False"
    using p(1) m(1) by auto
  from missing_duration_is_zero [OF t h, of exampleRuntime "exampleFilters\<lparr>maxDuration := ''600''\<rparr>"
      Map.empty]
  have 2: "durationStage exampleRuntime (exampleFilters\<lparr>maxDuration := ''600''\<rparr>) exampleSession = Inr True"
    using p(2) m(2,3) by auto
  from t d p(1) m(1) 1 2 show ?thesis by simp
qed

lemma jsSub_self: "\<not> jsLess (Fin 0) (jsSub x x)"
  by (cases x) (simp_all add: jsSub_def)

lemma sort_pair_tie:
  assumes "cmp a b = Inr v" and "\<not> jsLess (Fin 0) v"
  shows "sortE cmp [] [a, b] = Inr [a, b]"
  using assms by (simp add: bindE_def)

lemma compareSessions_same_date:
  assumes "date a = date b" and "sortOption = date_asc \<or> sortOption = date_desc"
  shows "\<exists>v. compareSessions rt aliasMap sortOption a b = Inr v \<and> \<not> jsLess (Fin 0) v"
  using assms jsSub_self by (auto simp: compareSessions_def)

lemma compareSessionsV2_same_date:
  assumes "date a = date b" and "sortOption = date_asc \<or> sortOption = date_desc"
  shows "\<exists>v. compareSessionsV2 rt aliasMap sortOption a b = Inr v \<and> \<not> jsLess (Fin 0) v"
  using assms jsSub_self by (auto simp: compareSessionsV2_def Let_def)

text \<open>
  C6 says that sessions with equal dates are ordered by start time. Both comparators
  give zero (or \<open>NaN\<close>) for two sessions with the same date string, whatever their
  start times, so the stable sort leaves them in their input order: the later session
  stays first under the ascending sort, and the earlier one stays first under the
  descending sort.
\<close>

theorem date_sort_ignores_start_time:
  "date lateSession = date earlySession \<and>
   startTime lateSession = Some ''10:00:00'' \<and> startTime earlySession = Some ''09:00:00'' \<and>
   sortedSessions rt aliasMap date_asc [lateSession, earlySession] = Inr [lateSession, earlySession] \<and>
   sortedSessions rt aliasMap date_desc [earlySession, lateSession] = Inr [earlySession, lateSession] \<and>
   sortedSessionsV2 rt aliasMap date_asc [lateSession, earlySession] = Inr [lateSession, earlySession] \<and>
   sortedSessionsV2 rt aliasMap date_desc [earlySession, lateSession] = Inr [earlySession, lateSession]"
proof -
  have d: "date lateSession = date earlySession" "date earlySession = date lateSession"
    by (simp_all add: lateSession_def earlySession_def)
  have 1: "sortedSessions rt aliasMap date_asc [lateSession, earlySession] = Inr [lateSession, earlySession]"
    using compareSessions_same_date [OF d(1), of date_asc rt aliasMap]
    unfolding sortedSessions_def by (auto intro: sort_pair_tie)
  have 2: "sortedSessions rt aliasMap date_desc [earlySession, lateSession] = Inr [earlySession, lateSession]"
    using compareSessions_same_date [OF d(2), of date_desc rt aliasMap]
    unfolding sortedSessions_def by (auto intro: sort_pair_tie)
  have 3: "sortedSessionsV2 rt aliasMap date_asc [lateSession, earlySession] = Inr [lateSession, earlySession]"
    using compareSessionsV2_same_date [OF d(1), of date_asc rt aliasMap]
    unfolding sortedSessionsV2_def by (auto intro: sort_pair_tie)
  have 4: "sortedSessionsV2 rt aliasMap date_desc [earlySession, lateSession] = Inr [earlySession, lateSession]"
    using compareSessionsV2_same_date [OF d(2), of date_desc rt aliasMap]
    unfolding sortedSessionsV2_def by (auto intro: sort_pair_tie)
  from d 1 2 3 4 show ?thesis
    by (simp add: lateSession_def earlySession_def)
qed


text \<open>
  The sort stage is not among these functions, and it can throw. A session whose source
  number is the name of a property of \<open>Object.prototype\<close> resolves to that property,
  which is not a string, and the comparator of the sort by source number calls
  \<open>localeCompare\<close> on it.
\<close>

lemma resolve_inherited: "resolve Map.empty (Some ''constructor'') = Some (Inherited ''constructor'')"
  by (simp add: resolve_def getProperty_def truthyValue_def objectPrototype_def)

lemma sort_throws_on_inherited_key:
  "sortedSessions rt Map.empty source_num [inheritedSession, inheritedSession] = Inl TypeError \<and>
   sortedSessionsV2 rt Map.empty source_num [inheritedSession, inheritedSession] = Inl TypeError"
  by (simp add: sortedSessions_def sortedSessionsV2_def compareSessions_def compareSessionsV2_def
      inheritedSession_def exampleSession_def resolve_inherited orEmptyValue_def truthyValue_def
      callLocaleCompare_def bindE_def)

end
